theory Spec2Isabelle
  imports Main "HOL-Library.Word"
begin

section \<open>Strings\<close>

text \<open>
  A string of the source is a sequence of 16-bit code units. Literals of the source are written
  \<open>str ''...''\<close>; the double quote is the code unit \<open>0x22\<close>.
\<close>

type_synonym code_unit = "16 word"
type_synonym jstr = "code_unit list"

abbreviation str :: "string \<Rightarrow> jstr" where
  "str s \<equiv> map of_char s"

text \<open>
  White space as \<open>String.prototype.trim\<close> and the regular expression class \<open>\s\<close> see it:
  the WhiteSpace and LineTerminator code points of ECMAScript.
\<close>

definition is_ws :: "code_unit \<Rightarrow> bool" where
  "is_ws c = (c \<in> {0x09, 0x0A, 0x0B, 0x0C, 0x0D, 0x20, 0xA0, 0x1680, 0x2028, 0x2029,
                   0x202F, 0x205F, 0x3000, 0xFEFF} \<or> (0x2000 \<le> c \<and> c \<le> 0x200A))"

definition trim :: "jstr \<Rightarrow> jstr" where
  "trim s = rev (dropWhile is_ws (rev (dropWhile is_ws s)))"

text \<open>\<open>s.split(c)\<close> for a one-character separator: every occurrence splits, and the empty
  string gives one empty piece.\<close>

fun split_on :: "code_unit \<Rightarrow> jstr \<Rightarrow> jstr list" where
  "split_on c [] = [[]]"
| "split_on c (x # xs) =
     (if x = c then [] # split_on c xs
      else (case split_on c xs of [] \<Rightarrow> [[x]] | y # ys \<Rightarrow> (x # y) # ys))"

text \<open>\<open>s.split(/\s+/)\<close>: every maximal run of white space is one separator.\<close>

function split_ws :: "jstr \<Rightarrow> jstr list" where
  "split_ws [] = [[]]"
| "split_ws (x # xs) =
     (if is_ws x then [] # split_ws (dropWhile is_ws xs)
      else (case split_ws xs of [] \<Rightarrow> [[x]] | y # ys \<Rightarrow> (x # y) # ys))"
  by pat_completeness auto
termination
  by (relation "measure length") (auto simp: length_dropWhile_le less_Suc_eq_le)

text \<open>\<open>parts.join(sep)\<close>.\<close>

fun join :: "jstr \<Rightarrow> jstr list \<Rightarrow> jstr" where
  "join sep [] = []"
| "join sep [x] = x"
| "join sep (x # y # ys) = x @ sep @ join sep (y # ys)"

text \<open>\<open>line.startsWith("#")\<close>.\<close>

fun starts_with_hash :: "jstr \<Rightarrow> bool" where
  "starts_with_hash [] = False"
| "starts_with_hash (c # _) = (c = 0x23)"

text \<open>The decimal numeral of a natural number, as \<open>String(i)\<close> prints an index.\<close>

fun dec :: "nat \<Rightarrow> jstr" where
  "dec n = (if n < 10 then [of_nat (48 + n)] else dec (n div 10) @ [of_nat (48 + n mod 10)])"

declare dec.simps [simp del]

section \<open>Values, objects and failures\<close>

text \<open>
  A property value is a string or a nested object. An object is the list of its own
  properties in the order in which \<open>Object.entries\<close> and object spread enumerate them:
  array-index keys first, in ascending numeric order, then the other keys in the order of
  their creation.
\<close>

datatype jsval = Str jstr | Obj "(jstr \<times> jsval) list"

type_synonym obj = "(jstr \<times> jsval) list"

datatype js_error =
    Error jstr        \<comment> \<open>\<open>new Error(message)\<close>\<close>
  | TypeError         \<comment> \<open>raised by the language itself\<close>
  | HostError jstr    \<comment> \<open>raised by the document or the storage\<close>

text \<open>
  The result of a computation that may throw. \<open>Unmodelled\<close> marks the runs that leave the
  objects described here: a key path that reaches a member of \<open>Object.prototype\<close> writes
  to an object shared by the whole program.
\<close>

datatype 'a outcome = Returns 'a | Throws js_error | Unmodelled

fun obind :: "'a outcome \<Rightarrow> ('a \<Rightarrow> 'b outcome) \<Rightarrow> 'b outcome" where
  "obind (Returns x) f = f x"
| "obind (Throws e) f = Throws e"
| "obind Unmodelled f = Unmodelled"

definition is_digit :: "code_unit \<Rightarrow> bool" where
  "is_digit c = (0x30 \<le> c \<and> c \<le> 0x39)"

definition digits_value :: "jstr \<Rightarrow> int" where
  "digits_value s = foldl (\<lambda>a c. 10 * a + (uint c - 48)) 0 s"

text \<open>An array index is the canonical numeral of an integer from 0 to \<open>2^32 - 2\<close>.\<close>

fun is_array_index :: "jstr \<Rightarrow> bool" where
  "is_array_index [] = False"
| "is_array_index (c # cs) =
     (list_all is_digit (c # cs) \<and> (if c = 0x30 then cs = [] else True)
      \<and> digits_value (c # cs) \<le> 4294967294)"

definition before_index :: "jstr \<Rightarrow> jstr \<times> jsval \<Rightarrow> bool" where
  "before_index k e = (is_array_index (fst e) \<and> digits_value (fst e) < digits_value k)"

text \<open>Defining or overwriting an own property: an existing key keeps its place, a new
  array index goes to its numeric place, any other new key goes last.\<close>

definition obj_set :: "jstr \<Rightarrow> jsval \<Rightarrow> obj \<Rightarrow> obj" where
  "obj_set k v ob =
     (case map_of ob k of
        Some _ \<Rightarrow> map (\<lambda>e. if fst e = k then (k, v) else e) ob
      | None \<Rightarrow>
          if is_array_index k
          then takeWhile (before_index k) ob @ (k, v) # dropWhile (before_index k) ob
          else ob @ [(k, v)])"

text \<open>
  The assignment \<open>ob[k] = s\<close> of a string to a property of an ordinary object:
  \<open>__proto__\<close> is an accessor of \<open>Object.prototype\<close> whose setter ignores a value that
  is not an object, every other key becomes an own property.
\<close>

definition assign_str :: "jstr \<Rightarrow> jstr \<Rightarrow> obj \<Rightarrow> obj" where
  "assign_str k s ob = (if k = str ''__proto__'' then ob else obj_set k (Str s) ob)"

text \<open>The property names every ordinary object inherits from \<open>Object.prototype\<close>; the
  operator \<open>in\<close> finds them.\<close>

definition object_prototype_keys :: "jstr list" where
  "object_prototype_keys =
     [str ''constructor'', str ''__defineGetter__'', str ''__defineSetter__'',
      str ''hasOwnProperty'', str ''__lookupGetter__'', str ''__lookupSetter__'',
      str ''isPrototypeOf'', str ''propertyIsEnumerable'', str ''toString'',
      str ''valueOf'', str ''__proto__'', str ''toLocaleString'']"

section \<open>The property script parser\<close>

text \<open>\<open>rawValue.replace(/^["']|["']$/g, "")\<close>: the first alternative can match at the first
  code unit only, the second at the last only, and the two matches do not overlap.\<close>

definition is_quote :: "code_unit \<Rightarrow> bool" where
  "is_quote c = (c = 0x22 \<or> c = 0x27)"

definition strip_leading_quote :: "jstr \<Rightarrow> jstr" where
  "strip_leading_quote s = (case s of [] \<Rightarrow> [] | c # cs \<Rightarrow> if is_quote c then cs else s)"

definition strip_trailing_quote :: "jstr \<Rightarrow> jstr" where
  "strip_trailing_quote s = (if s \<noteq> [] \<and> is_quote (last s) then butlast s else s)"

definition strip_quotes :: "jstr \<Rightarrow> jstr" where
  "strip_quotes s = strip_trailing_quote (strip_leading_quote s)"

definition cleanedValue :: "jstr \<Rightarrow> jstr" where
  "cleanedValue rawValue = trim (strip_quotes rawValue)"

text \<open>
  The drill-down loop over \<open>keyParts\<close> and the final assignment. The source mutates the
  nested objects in place; here the updated object is returned. A segment that is an own
  key is followed; one that \<open>in\<close> finds on the prototype only leaves the model; any other is
  created as an empty object. Reaching a string and then testing \<open>in\<close> on it, or assigning
  a property of it (the class body is strict code), throws a TypeError; the assignment of
  \<open>__proto__\<close> alone goes to the setter, which ignores it.
\<close>

fun set_path :: "jstr list \<Rightarrow> jstr \<Rightarrow> jstr \<Rightarrow> obj \<Rightarrow> obj outcome" where
  "set_path [] lastKey v cur = Returns (assign_str lastKey v cur)"
| "set_path (part # rest) lastKey v cur =
     (case map_of cur part of
        Some (Obj child) \<Rightarrow>
          obind (set_path rest lastKey v child) (\<lambda>child'. Returns (obj_set part (Obj child') cur))
      | Some (Str s) \<Rightarrow>
          if rest = [] \<and> lastKey = str ''__proto__'' then Returns cur else Throws TypeError
      | None \<Rightarrow>
          if List.member object_prototype_keys part then Unmodelled
          else obind (set_path rest lastKey v [])
                 (\<lambda>child'. Returns (obj_set part (Obj child') cur)))"

text \<open>One iteration of the loop over the trimmed lines.\<close>

definition parse_line :: "jstr \<Rightarrow> obj \<Rightarrow> obj outcome" where
  "parse_line line props =
     (if line = [] \<or> starts_with_hash line then Returns props
      else (case map trim (split_on 0x3D line) of
              rawKey # rawValue # _ \<Rightarrow>
                if rawKey = [] then Returns props
                else (let keyParts = split_on 0x2E rawKey
                      in set_path (butlast keyParts) (last keyParts)
                           (cleanedValue rawValue) props)
            | _ \<Rightarrow> Returns props))"

fun parse_lines :: "jstr list \<Rightarrow> obj \<Rightarrow> obj outcome" where
  "parse_lines [] props = Returns props"
| "parse_lines (l # ls) props = obind (parse_line l props) (parse_lines ls)"

definition parseMJSS :: "jstr \<Rightarrow> obj outcome" where
  "parseMJSS script = parse_lines (map trim (split_on 0x0A script)) []"

section \<open>Serialization\<close>

fun ebind :: "'e + 'a \<Rightarrow> ('a \<Rightarrow> 'e + 'b) \<Rightarrow> 'e + 'b" where
  "ebind (Inr x) f = f x"
| "ebind (Inl e) f = Inl e"

text \<open>
  The conversion of a value inside a template literal. An object without an own
  \<open>toString\<close> prints as \<open>[object Object]\<close>; an own \<open>toString\<close> of a parsed tree is never
  callable, \<open>valueOf\<close> then returns no primitive, and the conversion throws.
\<close>

fun to_string :: "jsval \<Rightarrow> js_error + jstr" where
  "to_string (Str s) = Inr s"
| "to_string (Obj ob) =
     (case map_of ob (str ''toString'') of
        None \<Rightarrow> Inr (str ''[object Object]'')
      | Some _ \<Rightarrow> Inl TypeError)"

definition assignment_line :: "jstr \<Rightarrow> jstr \<Rightarrow> jstr" where
  "assignment_line key val = key @ str '' = '' @ [0x22] @ val @ [0x22]"

fun nested_lines :: "jstr \<Rightarrow> obj \<Rightarrow> js_error + jstr list" where
  "nested_lines key [] = Inr []"
| "nested_lines key ((nestedKey, nestedVal) # rest) =
     ebind (to_string nestedVal) (\<lambda>s.
     ebind (nested_lines key rest) (\<lambda>ls.
       Inr (assignment_line (key @ str ''.'' @ nestedKey) s # ls)))"

fun build_lines :: "obj \<Rightarrow> js_error + jstr list" where
  "build_lines [] = Inr []"
| "build_lines ((key, Obj ob) # rest) =
     ebind (nested_lines key ob) (\<lambda>ls1.
     ebind (build_lines rest) (\<lambda>ls2. Inr (ls1 @ ls2)))"
| "build_lines ((key, Str s) # rest) =
     ebind (build_lines rest) (\<lambda>ls. Inr (assignment_line key s # ls))"

definition buildMJSS :: "obj \<Rightarrow> js_error + jstr" where
  "buildMJSS props = ebind (build_lines props) (\<lambda>ls. Inr (join [0x0A] ls))"

section \<open>Merging\<close>

text \<open>The own enumerable properties that object spread copies out of a value: nothing
  of \<open>undefined\<close>, the entries of an object, the indexed code units of a string.\<close>

definition string_entries :: "jstr \<Rightarrow> obj" where
  "string_entries s = map (\<lambda>i. (dec i, Str [s ! i])) [0..<length s]"

fun spread :: "jsval option \<Rightarrow> obj" where
  "spread None = []"
| "spread (Some (Obj ob)) = ob"
| "spread (Some (Str s)) = string_entries s"

definition copy_props :: "obj \<Rightarrow> obj \<Rightarrow> obj" where
  "copy_props target source = foldl (\<lambda>t e. obj_set (fst e) (snd e) t) target source"

text \<open>The object literal of the merge branch of \<open>updateMJSS\<close>:
  \<open>{...current, ...newProps, animation: {...current.animation, ...newProps.animation}}\<close>.\<close>

definition merge_props :: "obj \<Rightarrow> obj \<Rightarrow> obj" where
  "merge_props current newProps =
     obj_set (str ''animation'')
       (Obj (copy_props (copy_props [] (spread (map_of current (str ''animation''))))
                        (spread (map_of newProps (str ''animation'')))))
       (copy_props (copy_props [] current) newProps)"

section \<open>The command interpreter\<close>

text \<open>
  What a command handler can reach: the shared environment, an ordinary object, and the
  console. A handler either returns or throws, and in both cases leaves the world as it
  has changed it; it does not touch the registry or the configuration.
\<close>

record world =
  env :: obj
  console_log :: "jstr list"

datatype 's handled = Done 's | Raised js_error 's

type_synonym handler = "jstr list \<Rightarrow> world \<Rightarrow> world handled"

text \<open>A reported failure: a call of the configured \<open>onError\<close>, or the default
  \<open>console.error\<close> line.\<close>

datatype report = Hook jstr js_error | Console jstr js_error

text \<open>
  The interpreter: its configuration (which hooks the host supplied), the registry, the
  world of the handlers, and the calls made so far to the two hooks. The hooks are host
  callbacks that return normally.
\<close>

record interp =
  config_onError :: bool
  config_onLineParsed :: bool
  commandRegistry :: "jstr \<Rightarrow> handler option"
  world :: world
  reported :: "report list"
  lineParsed :: "(jstr \<times> jstr list) list"

definition setProperty :: handler where
  "setProperty args w =
     (if length args < 2
      then Raised (Error (str ''setProperty requires at least 2 args: key, value'')) w
      else (let key = hd args; val = join (str '' '') (tl args)
            in Done (w\<lparr>env := assign_str key val (env w),
                       console_log := console_log w @
                         [str ''[setProperty] Set '' @ [0x27] @ key @ [0x27] @ str '' to ''
                          @ [0x27] @ val @ [0x27] @ str '' in env.'']\<rparr>)))"

definition animateElement :: handler where
  "animateElement args w =
     (if length args < 2
      then Raised (Error (str ''animateElement requires at least 2 args: animationName, duration'')) w
      else (let animationName = args ! 0; duration = args ! 1
            in Done (w\<lparr>console_log := console_log w @
                         [str ''[animateElement] Animating with '' @ [0x27] @ animationName @ [0x27]
                          @ str '' for '' @ [0x27] @ duration @ [0x27] @ str ''.''],
                       env := obj_set (str ''lastAnimation'')
                                (Obj [(str ''animationName'', Str animationName),
                                      (str ''duration'', Str duration)]) (env w)\<rparr>)))"

definition registerFunction :: "jstr \<Rightarrow> handler \<Rightarrow> interp \<Rightarrow> interp outcome" where
  "registerFunction commandName h it =
     (if commandName = [] then Throws (Error (str ''Cannot register MJSS function without a name.''))
      else Returns (it\<lparr>commandRegistry := (commandRegistry it)(commandName \<mapsto> h)\<rparr>))"

definition registerDefaultCommands :: "interp \<Rightarrow> interp" where
  "registerDefaultCommands it =
     it\<lparr>commandRegistry := (commandRegistry it)
          (str ''setProperty'' \<mapsto> setProperty, str ''animateElement'' \<mapsto> animateElement)\<rparr>"

definition new_interp :: "bool \<Rightarrow> bool \<Rightarrow> interp" where
  "new_interp onError onLineParsed =
     registerDefaultCommands
       \<lparr>config_onError = onError, config_onLineParsed = onLineParsed,
        commandRegistry = (\<lambda>_. None), world = \<lparr>env = [], console_log = []\<rparr>,
        reported = [], lineParsed = []\<rparr>"

definition setEnvironment :: "obj \<Rightarrow> interp \<Rightarrow> interp" where
  "setEnvironment e it = it\<lparr>world := (world it)\<lparr>env := e\<rparr>\<rparr>"

definition handleError :: "jstr \<Rightarrow> js_error \<Rightarrow> interp \<Rightarrow> interp" where
  "handleError ctx err it =
     (if config_onError it then it\<lparr>reported := reported it @ [Hook ctx err]\<rparr>
      else it\<lparr>reported := reported it @ [Console (str ''[MJSS '' @ ctx @ str '' ERROR]'') err]\<rparr>)"

text \<open>One iteration of the loop of \<open>parse\<close> over the trimmed lines. The split of a
  non-empty trimmed line always has a first token.\<close>

definition exec_line :: "jstr \<Rightarrow> interp \<Rightarrow> interp" where
  "exec_line line it =
     (if line = [] \<or> starts_with_hash line then it
      else (case split_ws line of
              [] \<Rightarrow> it
            | commandName # args \<Rightarrow>
                (case commandRegistry it commandName of
                   None \<Rightarrow>
                     handleError (str ''parse'')
                       (Error (str ''Unrecognized command: '' @ commandName)) it
                 | Some commandHandler \<Rightarrow>
                     (case commandHandler args (world it) of
                        Done w \<Rightarrow>
                          (if config_onLineParsed it
                           then it\<lparr>world := w, lineParsed := lineParsed it @ [(commandName, args)]\<rparr>
                           else it\<lparr>world := w\<rparr>)
                      | Raised err w \<Rightarrow>
                          handleError (str ''Command '' @ [0x27] @ commandName @ [0x27]) err
                            (it\<lparr>world := w\<rparr>)))))"

fun exec_lines :: "jstr list \<Rightarrow> interp \<Rightarrow> interp" where
  "exec_lines [] it = it"
| "exec_lines (l # ls) it = exec_lines ls (exec_line l it)"

definition parse :: "jstr \<Rightarrow> interp \<Rightarrow> interp" where
  "parse script it = exec_lines (map trim (split_on 0x0A script)) it"

section \<open>The script engine\<close>

text \<open>
  The document and the storage belong to the host. They are a state \<open>'h\<close> with the
  operations the engine calls: each may throw, and a write returns the new state.
\<close>

type_synonym elem = nat

datatype dom_write =
    SetId elem jsval
  | AppendChild elem elem
  | SetTextContent elem jsval
  | SetStyle elem jstr jsval

record 'h host =
  getElementById :: "jstr \<Rightarrow> 'h \<Rightarrow> elem option"
  createElement :: "jstr \<Rightarrow> 'h \<Rightarrow> js_error + (elem \<times> 'h)"
  dom_write :: "dom_write \<Rightarrow> 'h \<Rightarrow> js_error + 'h"
  getItem :: "jstr \<Rightarrow> 'h \<Rightarrow> js_error + jstr option"
  setItem :: "jstr \<Rightarrow> jstr \<Rightarrow> 'h \<Rightarrow> js_error + 'h"

datatype container = ById jstr | ByElement elem

record MJSSEngineOptions =
  container :: container
  opt_localStorageKey :: "jstr option"
  opt_onError :: bool

record 'h MJSSEngine =
  containerElem :: elem
  localStorageKey :: jstr
  onError :: bool
  currentMJSSProps :: obj
  buttonElem :: "elem option"
  errors :: "report list"
  outside :: 'h

text \<open>\<open>handleError\<close> of the engine. The \<open>onError\<close> of the options is a host callback
  that returns normally; \<open>errors\<close> lists its calls and, when none was given, the lines of
  \<open>console.error\<close>.\<close>

definition handleError_engine :: "jstr \<Rightarrow> js_error \<Rightarrow> 'h MJSSEngine \<Rightarrow> 'h MJSSEngine" where
  "handleError_engine ctx err st =
     (if onError st then st\<lparr>errors := errors st @ [Hook ctx err]\<rparr>
      else st\<lparr>errors := errors st @ [Console (str ''['' @ ctx @ str '' ERROR]'') err]\<rparr>)"

fun hbind :: "'s handled \<Rightarrow> ('s \<Rightarrow> 's handled) \<Rightarrow> 's handled" where
  "hbind (Done s) f = f s"
| "hbind (Raised e s) f = Raised e s"

text \<open>The state in which a computation ends, whether it returns or throws.\<close>

fun final_state :: "'s handled \<Rightarrow> 's" where
  "final_state (Done s) = s"
| "final_state (Raised e s) = s"

definition dom_do :: "'h host \<Rightarrow> dom_write \<Rightarrow> 'h MJSSEngine \<Rightarrow> 'h MJSSEngine handled" where
  "dom_do H w st =
     (case dom_write H w (outside st) of
        Inl err \<Rightarrow> Raised err st
      | Inr h \<Rightarrow> Done (st\<lparr>outside := h\<rparr>))"

text \<open>The test \<open>if (props.key)\<close>: a missing property and the empty string are falsy.\<close>

fun truthy :: "jsval option \<Rightarrow> bool" where
  "truthy None = False"
| "truthy (Some (Str s)) = (s \<noteq> [])"
| "truthy (Some (Obj _)) = True"

fun when_truthy :: "jsval option \<Rightarrow> (jsval \<Rightarrow> 's \<Rightarrow> 's handled) \<Rightarrow> 's \<Rightarrow> 's handled" where
  "when_truthy None f st = Done st"
| "when_truthy (Some v) f st = (if truthy (Some v) then f v st else Done st)"

text \<open>The properties \<open>type\<close> and \<open>duration\<close> of the animation value; a string has
  neither.\<close>

fun prop_of :: "jsval \<Rightarrow> jstr \<Rightarrow> jsval option" where
  "prop_of (Obj ob) k = map_of ob k"
| "prop_of (Str s) k = None"

text \<open>The template \<open>opacity ${animation.duration || "1s"} ease-in-out\<close>.\<close>

definition transition_value :: "jsval \<Rightarrow> js_error + jstr" where
  "transition_value animation =
     ebind (case prop_of animation (str ''duration'') of
              None \<Rightarrow> Inr (str ''1s'')
            | Some d \<Rightarrow> if truthy (Some d) then to_string d else Inr (str ''1s''))
       (\<lambda>d. Inr (str ''opacity '' @ d @ str '' ease-in-out''))"

definition create_button :: "'h host \<Rightarrow> 'h MJSSEngine \<Rightarrow> 'h MJSSEngine handled" where
  "create_button H st =
     (case buttonElem st of
        Some b \<Rightarrow> Done st
      | None \<Rightarrow>
          (case createElement H (str ''button'') (outside st) of
             Inl err \<Rightarrow> Raised err st
           | Inr (b, h) \<Rightarrow>
               hbind (when_truthy (map_of (currentMJSSProps st) (str ''buttonID''))
                        (\<lambda>v. dom_do H (SetId b v))
                        (st\<lparr>buttonElem := Some b, outside := h\<rparr>))
                 (\<lambda>st1. dom_do H (AppendChild (containerElem st1) b) st1)))"

definition apply_animation :: "'h host \<Rightarrow> elem \<Rightarrow> jsval \<Rightarrow> 'h MJSSEngine \<Rightarrow> 'h MJSSEngine handled" where
  "apply_animation H b animation st =
     (if prop_of animation (str ''type'') = Some (Str (str ''fade''))
      then (case transition_value animation of
              Inl err \<Rightarrow> Raised err st
            | Inr t \<Rightarrow> dom_do H (SetStyle b (str ''transition'') (Str t)) st)
      else Done st)"

definition renderButton :: "'h host \<Rightarrow> 'h MJSSEngine \<Rightarrow> 'h MJSSEngine handled" where
  "renderButton H st =
     hbind (create_button H st) (\<lambda>st1.
       (case buttonElem st1 of
          None \<Rightarrow> Done st1
        | Some b \<Rightarrow>
            (let props = currentMJSSProps st1 in
             hbind (when_truthy (map_of props (str ''text''))
                      (\<lambda>v. dom_do H (SetTextContent b v)) st1) (\<lambda>st2.
             hbind (when_truthy (map_of props (str ''color''))
                      (\<lambda>v. dom_do H (SetStyle b (str ''backgroundColor'') v)) st2) (\<lambda>st3.
             hbind (when_truthy (map_of props (str ''width''))
                      (\<lambda>v. dom_do H (SetStyle b (str ''width'') v)) st3) (\<lambda>st4.
             hbind (when_truthy (map_of props (str ''height''))
                      (\<lambda>v. dom_do H (SetStyle b (str ''height'') v)) st4) (\<lambda>st5.
             when_truthy (map_of props (str ''animation'')) (apply_animation H b) st5)))))))"

text \<open>The body of \<open>updateMJSS\<close> after the parse, and \<open>updateMJSS\<close> with its
  \<open>try\<close>/\<open>catch\<close>: whatever is thrown goes to \<open>handleError\<close>, with the state as the
  statements before the throw have left it.\<close>

definition persist :: "'h host \<Rightarrow> 'h MJSSEngine \<Rightarrow> 'h MJSSEngine handled" where
  "persist H st =
     (case buildMJSS (currentMJSSProps st) of
        Inl err \<Rightarrow> Raised err st
      | Inr text \<Rightarrow>
          (case setItem H (localStorageKey st) text (outside st) of
             Inl err \<Rightarrow> Raised err st
           | Inr h \<Rightarrow> Done (st\<lparr>outside := h\<rparr>)))"

definition combine :: "bool \<Rightarrow> obj \<Rightarrow> obj \<Rightarrow> obj" where
  "combine replace current newProps = (if replace then newProps else merge_props current newProps)"

definition catch :: "jstr \<Rightarrow> 'h MJSSEngine handled \<Rightarrow> 'h MJSSEngine" where
  "catch ctx r = (case r of Done st \<Rightarrow> st | Raised err st \<Rightarrow> handleError_engine ctx err st)"

definition updateMJSS :: "'h host \<Rightarrow> jstr \<Rightarrow> bool \<Rightarrow> 'h MJSSEngine \<Rightarrow> 'h MJSSEngine outcome" where
  "updateMJSS H newScript replace st =
     (case parseMJSS newScript of
        Unmodelled \<Rightarrow> Unmodelled
      | Throws err \<Rightarrow> Returns (catch (str ''UpdateMJSS'') (Raised err st))
      | Returns newProps \<Rightarrow>
          Returns (catch (str ''UpdateMJSS'')
            (hbind (renderButton H
                      (st\<lparr>currentMJSSProps := combine replace (currentMJSSProps st) newProps\<rparr>))
               (persist H))))"

text \<open>\<open>initialize\<close> and the constructor. Only the lookup of the container is outside
  the \<open>try\<close>.\<close>

definition load_saved :: "'h host \<Rightarrow> 'h MJSSEngine \<Rightarrow> 'h MJSSEngine handled outcome" where
  "load_saved H st =
     (case getItem H (localStorageKey st) (outside st) of
        Inl err \<Rightarrow> Returns (Raised err st)
      | Inr saved \<Rightarrow>
          (let savedScript = (case saved of None \<Rightarrow> [] | Some s \<Rightarrow> s)
           in if savedScript \<noteq> []
              then (case parseMJSS savedScript of
                      Unmodelled \<Rightarrow> Unmodelled
                    | Throws err \<Rightarrow> Returns (Raised err st)
                    | Returns props \<Rightarrow> Returns (Done (st\<lparr>currentMJSSProps := props\<rparr>)))
              else Returns (Done st)))"

definition initialize :: "'h host \<Rightarrow> 'h MJSSEngine \<Rightarrow> 'h MJSSEngine outcome" where
  "initialize H st =
     obind (load_saved H st) (\<lambda>r.
       Returns (catch (str ''Initialization'') (hbind r (renderButton H))))"

definition fresh_engine :: "MJSSEngineOptions \<Rightarrow> elem \<Rightarrow> 'h \<Rightarrow> 'h MJSSEngine" where
  "fresh_engine options el h =
     \<lparr>containerElem = el,
      localStorageKey = (case opt_localStorageKey options of
                           None \<Rightarrow> str ''MJSS_SCRIPT''
                         | Some k \<Rightarrow> if k = [] then str ''MJSS_SCRIPT'' else k),
      onError = opt_onError options,
      currentMJSSProps = [],
      buttonElem = None,
      errors = [],
      outside = h\<rparr>"

definition new_MJSSEngine :: "'h host \<Rightarrow> MJSSEngineOptions \<Rightarrow> 'h \<Rightarrow> 'h MJSSEngine outcome" where
  "new_MJSSEngine H options h =
     (case container options of
        ById ident \<Rightarrow>
          (case getElementById H ident h of
             None \<Rightarrow>
               Throws (Error (str ''MJSSEngine: Container element with ID '' @ [0x27] @ ident
                              @ [0x27] @ str '' not found.''))
           | Some el \<Rightarrow> initialize H (fresh_engine options el h))
      | ByElement el \<Rightarrow> initialize H (fresh_engine options el h))"

section \<open>Normalized trees\<close>

text \<open>
  The trees on which the script is a faithful notation. A list is an object when no key
  occurs twice and the keys stand in enumeration order. A key is a segment of the grammar
  (not empty, without \<open>.\<close>, \<open>=\<close> or white space); a value is plain when it has no quote,
  no \<open>=\<close>, no line feed and no white space at either end.
\<close>

definition key_order :: "jstr \<Rightarrow> jstr \<Rightarrow> bool" where
  "key_order a b =
     (if is_array_index b then is_array_index a \<and> digits_value a < digits_value b else True)"

definition is_object_shape :: "obj \<Rightarrow> bool" where
  "is_object_shape ob = (distinct (map fst ob) \<and> sorted_wrt key_order (map fst ob))"

definition is_segment :: "jstr \<Rightarrow> bool" where
  "is_segment k = (k \<noteq> [] \<and> list_all (\<lambda>c. c \<noteq> 0x2E \<and> c \<noteq> 0x3D \<and> \<not> is_ws c) k)"

definition plain_value :: "jstr \<Rightarrow> bool" where
  "plain_value s = (list_all (\<lambda>c. \<not> is_quote c \<and> c \<noteq> 0x3D \<and> c \<noteq> 0x0A) s \<and> trim s = s)"

fun normalized_nested :: "jstr \<times> jsval \<Rightarrow> bool" where
  "normalized_nested (n, Str s) = (is_segment n \<and> n \<noteq> str ''__proto__'' \<and> plain_value s)"
| "normalized_nested (n, Obj _) = False"

fun normalized_entry :: "jstr \<times> jsval \<Rightarrow> bool" where
  "normalized_entry (k, Str s) =
     (is_segment k \<and> \<not> starts_with_hash k \<and> k \<noteq> str ''__proto__'' \<and> plain_value s)"
| "normalized_entry (k, Obj ob) =
     (is_segment k \<and> \<not> starts_with_hash k \<and> \<not> List.member object_prototype_keys k
      \<and> is_object_shape ob \<and> list_all normalized_nested ob)"

definition normalized_tree :: "obj \<Rightarrow> bool" where
  "normalized_tree t = (is_object_shape t \<and> list_all normalized_entry t)"

text \<open>A line as the serializer writes it: on one line and without white space at either
  end. An empty nested tree has no line, so a script cannot express it.\<close>

definition trimmed_line :: "jstr \<Rightarrow> bool" where
  "trimmed_line l = (trim l = l \<and> list_all (\<lambda>c. c \<noteq> 0x0A) l)"

definition drop_empty :: "obj \<Rightarrow> obj" where
  "drop_empty t = filter (\<lambda>e. snd e \<noteq> Obj []) t"

section \<open>A host for examples\<close>

text \<open>
  A page with one container, \<open>app\<close>, as in the example document of the repository. It
  logs the writes to the document and keeps the storage as a list of entries. The flags
  make the document or the storage refuse every write.
\<close>

record page =
  created :: nat
  writes :: "dom_write list"
  storage :: "(jstr \<times> jstr) list"

definition page_host :: "bool \<Rightarrow> bool \<Rightarrow> page host" where
  "page_host dom_fails storage_full =
     \<lparr>getElementById = (\<lambda>ident h. if ident = str ''app'' then Some 0 else None),
      createElement = (\<lambda>tag h. Inr (Suc (created h), h\<lparr>created := Suc (created h)\<rparr>)),
      dom_write = (\<lambda>w h. if dom_fails then Inl (HostError (str ''HierarchyRequestError''))
                            else Inr (h\<lparr>writes := writes h @ [w]\<rparr>)),
      getItem = (\<lambda>k h. Inr (map_of (storage h) k)),
      setItem = (\<lambda>k v h. if storage_full then Inl (HostError (str ''QuotaExceededError''))
                            else Inr (h\<lparr>storage := (k, v) # storage h\<rparr>))\<rparr>"

definition empty_page :: page where
  "empty_page = \<lparr>created = 0, writes = [], storage = []\<rparr>"

definition app_options :: MJSSEngineOptions where
  "app_options = \<lparr>container = ById (str ''app''), opt_localStorageKey = None, opt_onError = True\<rparr>"

section \<open>Lookup in objects\<close>

lemma map_of_insert_middle:
  "map_of xs k = None \<Longrightarrow>
   map_of (xs @ (k, v) # ys) k' = (if k' = k then Some v else map_of (xs @ ys) k')"
  by (induction xs) auto

lemma map_of_replace:
  "map_of (map (\<lambda>e. if fst e = k then (k, v) else e) ob) k' =
     (if k' = k then map_option (\<lambda>_. v) (map_of ob k) else map_of ob k')"
  by (induction ob) auto

lemma map_of_takeWhile_None: "map_of ob k = None \<Longrightarrow> map_of (takeWhile P ob) k = None"
  by (induction ob) (auto split: if_splits)

lemma map_of_obj_set:
  "map_of (obj_set k v ob) k' = (if k' = k then Some v else map_of ob k')"
proof (cases "map_of ob k")
  case None
  show ?thesis
  proof (cases "is_array_index k")
    case True
    have "map_of (takeWhile (before_index k) ob @ (k, v) # dropWhile (before_index k) ob) k' =
          (if k' = k then Some v
           else map_of (takeWhile (before_index k) ob @ dropWhile (before_index k) ob) k')"
      by (rule map_of_insert_middle) (rule map_of_takeWhile_None [OF None])
    with None True show ?thesis by (simp add: obj_set_def)
  next
    case False
    with None show ?thesis by (auto simp: obj_set_def map_add_def split: option.splits)
  qed
next
  case (Some w)
  then show ?thesis by (simp add: obj_set_def map_of_replace)
qed

lemma map_of_copy_props:
  "map_of (copy_props target source) k =
     (case map_of (rev source) k of Some v \<Rightarrow> Some v | None \<Rightarrow> map_of target k)"
  unfolding copy_props_def
  by (induction source arbitrary: target)
     (auto simp: map_of_obj_set map_add_def split: option.splits)

lemma map_of_rev_distinct:
  "distinct (map fst xs) \<Longrightarrow> map_of (rev xs) k = map_of xs k"
proof (induction xs)
  case Nil
  show ?case by simp
next
  case (Cons x xs)
  have "map_of xs (fst x) = None"
    using Cons.prems by (simp add: map_of_eq_None_iff)
  with Cons show ?case
    by (cases x) (auto simp: map_add_def split: option.splits)
qed

lemma map_of_copy_props_distinct:
  "distinct (map fst source) \<Longrightarrow>
   map_of (copy_props target source) k =
     (case map_of source k of Some v \<Rightarrow> Some v | None \<Rightarrow> map_of target k)"
  by (simp add: map_of_copy_props map_of_rev_distinct)

lemma map_of_copy_all:
  "distinct (map fst base) \<Longrightarrow> distinct (map fst incoming) \<Longrightarrow>
   map_of (copy_props (copy_props [] base) incoming) k =
     (case map_of incoming k of Some v \<Rightarrow> Some v | None \<Rightarrow> map_of base k)"
  by (simp add: map_of_copy_props_distinct split: option.splits)
lemma strip_leading_quote_simps:
  "strip_leading_quote [] = []"
  "is_quote a \<Longrightarrow> strip_leading_quote (a # s) = s"
  "\<not> is_quote a \<Longrightarrow> strip_leading_quote (a # s) = a # s"
  by (simp_all add: strip_leading_quote_def)

section \<open>Merging: which keys survive\<close>

text \<open>
  Claim C2, as stated: in merge mode the nested trees under any key present as a nested
  tree on both sides are merged one level deep. It fails for a key other than
  \<open>animation\<close>: with \<open>style.a\<close> in the current tree and \<open>style.b\<close> in the new one, the
  combined tree holds the new \<open>style\<close> alone, and \<open>style.a\<close> is lost.
\<close>

theorem merge_replaces_other_nested_counterexample:
  "map_of (merge_props [(str ''style'', Obj [(str ''a'', Str (str ''1''))])]
                       [(str ''style'', Obj [(str ''b'', Str (str ''2''))])]) (str ''style'')
     = Some (Obj [(str ''b'', Str (str ''2''))])"
  by (simp add: merge_props_def copy_props_def obj_set_def)

text \<open>
  Claim C2, amended: in merge mode the nested trees under the key \<open>animation\<close> are merged
  one level deep (a nested key of the new tree overrides, the other nested keys of the
  current tree are kept); under every other key present in the new tree the combined tree
  holds the new value whole.
\<close>

theorem merge_nested_animation_only:
  assumes "distinct (map fst base)" and "distinct (map fst incoming)"
  shows "(map_of base (str ''animation'') = Some (Obj a) \<and> distinct (map fst a)
          \<and> map_of incoming (str ''animation'') = Some (Obj b) \<and> distinct (map fst b)
          \<longrightarrow> (\<exists>m. map_of (merge_props base incoming) (str ''animation'') = Some (Obj m)
                \<and> (\<forall>n. map_of m n = (case map_of b n of Some v \<Rightarrow> Some v | None \<Rightarrow> map_of a n))))
       \<and> (k \<noteq> str ''animation'' \<and> map_of incoming k = Some v
          \<longrightarrow> map_of (merge_props base incoming) k = Some v)"
proof (intro conjI impI)
  assume h: "map_of base (str ''animation'') = Some (Obj a) \<and> distinct (map fst a)
          \<and> map_of incoming (str ''animation'') = Some (Obj b) \<and> distinct (map fst b)"
  let ?m = "copy_props (copy_props [] a) b"
  have "map_of (merge_props base incoming) (str ''animation'') = Some (Obj ?m)"
    using h unfolding merge_props_def map_of_obj_set by simp
  moreover have "\<forall>n. map_of ?m n = (case map_of b n of Some v \<Rightarrow> Some v | None \<Rightarrow> map_of a n)"
    using h map_of_copy_all [of a b] by blast
  ultimately show "\<exists>m. map_of (merge_props base incoming) (str ''animation'') = Some (Obj m)
       \<and> (\<forall>n. map_of m n = (case map_of b n of Some v \<Rightarrow> Some v | None \<Rightarrow> map_of a n))"
    by blast
next
  assume h: "k \<noteq> str ''animation'' \<and> map_of incoming k = Some v"
  have "map_of (merge_props base incoming) k = map_of (copy_props (copy_props [] base) incoming) k"
    using h unfolding merge_props_def map_of_obj_set by simp
  also have "\<dots> = Some v"
    using h map_of_copy_all [OF assms, of k] by simp
  finally show "map_of (merge_props base incoming) k = Some v" .
qed

theorem merge_nested_animation_only_witness:
  "\<exists>m. map_of (merge_props [(str ''animation'', Obj [(str ''type'', Str (str ''fade'')),
                                                      (str ''duration'', Str (str ''1s''))])]
                            [(str ''animation'', Obj [(str ''duration'', Str (str ''2s''))]),
                             (str ''text'', Str (str ''Hi''))]) (str ''animation'') = Some (Obj m)
        \<and> map_of m (str ''type'') = Some (Str (str ''fade''))
        \<and> map_of m (str ''duration'') = Some (Str (str ''2s''))"
proof -
  let ?a = "[(str ''type'', Str (str ''fade'')), (str ''duration'', Str (str ''1s''))]"
  let ?b = "[(str ''duration'', Str (str ''2s''))]"
  let ?base = "[(str ''animation'', Obj ?a)]"
  let ?incoming = "[(str ''animation'', Obj ?b), (str ''text'', Str (str ''Hi''))]"
  have d: "distinct (map fst ?base)" "distinct (map fst ?incoming)" by simp_all
  have h: "map_of ?base (str ''animation'') = Some (Obj ?a) \<and> distinct (map fst ?a)
           \<and> map_of ?incoming (str ''animation'') = Some (Obj ?b) \<and> distinct (map fst ?b)"
    by simp
  from merge_nested_animation_only [OF d, of ?a ?b] h
  obtain m where m: "map_of (merge_props ?base ?incoming) (str ''animation'') = Some (Obj m)"
    "\<forall>n. map_of m n = (case map_of ?b n of Some v \<Rightarrow> Some v | None \<Rightarrow> map_of ?a n)"
    by blast
  from m(2) have "map_of m (str ''type'') = Some (Str (str ''fade''))"
    and "map_of m (str ''duration'') = Some (Str (str ''2s''))"
    by simp_all
  with m(1) show ?thesis by blast
qed

section \<open>The property parser on single lines\<close>

text \<open>
  Claim C6: the raw value is everything after the first \<open>=\<close>. The parser splits at every
  \<open>=\<close> and keeps the first two pieces: of the line \<open>url = "x?a=1"\<close> it stores \<open>x?a\<close>.
\<close>

theorem parseMJSS_truncates_at_second_equals:
  "parseMJSS (str ''url = '' @ [0x22] @ str ''x?a=1'' @ [0x22])
     = Returns [(str ''url'', Str (str ''x?a''))]"
  by code_simp

text \<open>
  Claim C7, as stated: one matching pair of quotes, straight or curly, is stripped, and a
  quote without its match is kept. It fails: a leading quote alone is stripped, two
  different quotes are stripped, and curly quotes are kept.
\<close>

theorem cleanedValue_unmatched_counterexample:
  "cleanedValue (0x22 # str ''abc'') = str ''abc''
   \<and> cleanedValue (0x22 # str ''abc'' @ [0x27]) = str ''abc''
   \<and> cleanedValue (0x201C # str ''abc'' @ [0x201D]) = 0x201C # str ''abc'' @ [0x201D]"
  by code_simp

text \<open>
  Claim C7, amended: value normalization removes one straight quote (\<open>"\<close> or \<open>'\<close>) from
  the start of the raw value if there is one and, independently, one from the end if there
  is one, whether or not the two match, and then trims; no other character counts as a
  quote.
\<close>

theorem cleanedValue_strips_each_end:
  "(is_quote a \<and> is_quote b \<longrightarrow> cleanedValue (a # body @ [b]) = trim body)
   \<and> (is_quote a \<and> (body = [] \<or> \<not> is_quote (last body)) \<longrightarrow> cleanedValue (a # body) = trim body)
   \<and> (is_quote b \<and> (body = [] \<or> \<not> is_quote (hd body)) \<longrightarrow> cleanedValue (body @ [b]) = trim body)
   \<and> (body = [] \<or> (\<not> is_quote (hd body) \<and> \<not> is_quote (last body)) \<longrightarrow> cleanedValue body = trim body)
   \<and> (is_quote c \<longleftrightarrow> c = 0x22 \<or> c = 0x27)"
proof (intro conjI impI)
  assume "is_quote a \<and> is_quote b"
  then show "cleanedValue (a # body @ [b]) = trim body"
    by (simp add: cleanedValue_def strip_quotes_def strip_leading_quote_simps strip_trailing_quote_def)
next
  assume "is_quote a \<and> (body = [] \<or> \<not> is_quote (last body))"
  then show "cleanedValue (a # body) = trim body"
    by (auto simp: cleanedValue_def strip_quotes_def strip_leading_quote_simps strip_trailing_quote_def)
next
  assume h: "is_quote b \<and> (body = [] \<or> \<not> is_quote (hd body))"
  show "cleanedValue (body @ [b]) = trim body"
  proof (cases body)
    case Nil
    with h show ?thesis
      by (simp add: cleanedValue_def strip_quotes_def strip_leading_quote_simps strip_trailing_quote_def)
  next
    case (Cons x xs)
    with h show ?thesis
      by (simp add: cleanedValue_def strip_quotes_def strip_leading_quote_simps strip_trailing_quote_def)
  qed
next
  assume h: "body = [] \<or> (\<not> is_quote (hd body) \<and> \<not> is_quote (last body))"
  show "cleanedValue body = trim body"
  proof (cases body)
    case Nil
    then show ?thesis
      by (simp add: cleanedValue_def strip_quotes_def strip_leading_quote_simps strip_trailing_quote_def)
  next
    case (Cons x xs)
    with h have "\<not> is_quote x" and "\<not> is_quote (last (x # xs))" by auto
    with Cons show ?thesis
      by (simp add: cleanedValue_def strip_quotes_def strip_leading_quote_simps strip_trailing_quote_def)
  qed
next
  show "is_quote c \<longleftrightarrow> c = 0x22 \<or> c = 0x27" by (simp add: is_quote_def)
qed

theorem cleanedValue_strips_each_end_witness:
  "cleanedValue (0x22 # str ''abc'' @ [0x27]) = str ''abc''
   \<and> cleanedValue (0x27 # str ''abc'') = str ''abc''
   \<and> cleanedValue (str ''abc'' @ [0x22]) = str ''abc''
   \<and> cleanedValue (str '' abc '') = str ''abc''"
proof -
  have q: "is_quote 0x22" "is_quote 0x27" "\<not> is_quote (last (str ''abc''))"
    "\<not> is_quote (hd (str ''abc''))" "\<not> is_quote (hd (str '' abc ''))"
    "\<not> is_quote (last (str '' abc ''))"
    by (simp_all add: is_quote_def)
  have t: "trim (str ''abc'') = str ''abc''" "trim (str '' abc '') = str ''abc''"
    by code_simp+
  from cleanedValue_strips_each_end [of "0x22" "0x27" "str ''abc''"] q t
  have 1: "cleanedValue (0x22 # str ''abc'' @ [0x27]) = str ''abc''" by simp
  from cleanedValue_strips_each_end [of "0x27" _ "str ''abc''"] q t
  have 2: "cleanedValue (0x27 # str ''abc'') = str ''abc''" by simp
  from cleanedValue_strips_each_end [of _ "0x22" "str ''abc''"] q t
  have 3: "cleanedValue (str ''abc'' @ [0x22]) = str ''abc''" by simp
  from cleanedValue_strips_each_end [of _ _ "str '' abc ''"] q t
  have 4: "cleanedValue (str '' abc '') = str ''abc''" by simp
  from 1 2 3 4 show ?thesis by blast
qed

text \<open>
  Claim C8: no key of a parsed tree is empty. The parser rejects an empty key path only:
  an empty segment of a dotted path is stored, as the nested key of \<open>a. = x\<close> and as the
  top-level key of \<open>.a = x\<close>.
\<close>

theorem parseMJSS_stores_empty_segment:
  "parseMJSS (str ''a. = x'') = Returns [(str ''a'', Obj [([], Str (str ''x''))])]
   \<and> parseMJSS (str ''.a = x'') = Returns [([], Obj [(str ''a'', Str (str ''x''))])]"
  by code_simp

section \<open>The built-in commands\<close>

text \<open>
  Claim C10: with two or more arguments \<open>animateElement\<close> returns, stores the object of the
  first two arguments under \<open>lastAnimation\<close>, leaves every other key of the environment as
  it was, and ignores the arguments after the second.
\<close>

theorem animateElement_records:
  assumes "2 \<le> length args"
  shows "\<exists>w'. animateElement args w = Done w'
          \<and> map_of (env w') (str ''lastAnimation'') =
              Some (Obj [(str ''animationName'', Str (args ! 0)), (str ''duration'', Str (args ! 1))])
          \<and> (\<forall>k. k \<noteq> str ''lastAnimation'' \<longrightarrow> map_of (env w') k = map_of (env w) k)
          \<and> animateElement args w = animateElement (take 2 args) w"
  using assms by (simp add: animateElement_def Let_def map_of_obj_set)

theorem animateElement_records_witness:
  "2 \<le> length [str ''fadeIn'', str ''2s'', str ''now'']
   \<and> (\<exists>w'. animateElement [str ''fadeIn'', str ''2s'', str ''now'']
               \<lparr>env = [(str ''a'', Str (str ''b''))], console_log = []\<rparr> = Done w'
          \<and> map_of (env w') (str ''lastAnimation'') =
              Some (Obj [(str ''animationName'', Str (str ''fadeIn'')), (str ''duration'', Str (str ''2s''))])
          \<and> map_of (env w') (str ''a'') = Some (Str (str ''b'')))"
proof -
  have h: "2 \<le> length [str ''fadeIn'', str ''2s'', str ''now'']" by simp
  from animateElement_records [OF h, of "\<lparr>env = [(str ''a'', Str (str ''b''))], console_log = []\<rparr>"]
  obtain w' where w: "animateElement [str ''fadeIn'', str ''2s'', str ''now'']
               \<lparr>env = [(str ''a'', Str (str ''b''))], console_log = []\<rparr> = Done w'"
    "map_of (env w') (str ''lastAnimation'') =
              Some (Obj [(str ''animationName'', Str ([str ''fadeIn'', str ''2s'', str ''now''] ! 0)),
                         (str ''duration'', Str ([str ''fadeIn'', str ''2s'', str ''now''] ! 1))])"
    "\<forall>k. k \<noteq> str ''lastAnimation'' \<longrightarrow> map_of (env w') k
        = map_of (env \<lparr>env = [(str ''a'', Str (str ''b''))], console_log = []\<rparr>) k"
    by blast
  have ne: "str ''a'' \<noteq> str ''lastAnimation''" by simp
  from w(3) ne have "map_of (env w') (str ''a'') = Some (Str (str ''b''))" by simp
  with w(1) w(2) h show ?thesis by simp
qed

section \<open>The interpreter line by line\<close>

lemma exec_line_config:
  "commandRegistry (exec_line l it) = commandRegistry it
   \<and> config_onError (exec_line l it) = config_onError it
   \<and> config_onLineParsed (exec_line l it) = config_onLineParsed it"
  by (simp add: exec_line_def handleError_def split: list.splits option.splits handled.splits)

lemma split_ws_first_token:
  assumes "split_ws l = (c # cs) # ts"
  shows "l \<noteq> [] \<and> hd l = c"
proof (cases l)
  case Nil
  with assms show ?thesis by simp
next
  case (Cons x xs)
  with assms show ?thesis by (auto split: if_splits list.splits)
qed

lemma setProperty_line:
  assumes "split_ws l = str ''setProperty'' # key # v # vs"
    and "commandRegistry it (str ''setProperty'') = Some setProperty"
  shows "world (exec_line l it) =
           (world it)\<lparr>env := assign_str key (join (str '' '') (v # vs)) (env (world it)),
                      console_log := console_log (world it) @
                         [str ''[setProperty] Set '' @ [0x27] @ key @ [0x27] @ str '' to ''
                          @ [0x27] @ join (str '' '') (v # vs) @ [0x27] @ str '' in env.'']\<rparr>"
    and "reported (exec_line l it) = reported it"
proof -
  from assms(1) have ne: "l \<noteq> [] \<and> hd l = 0x73"
    using split_ws_first_token [of l "0x73" "str ''etProperty''" "key # v # vs"] by simp
  then have "\<not> starts_with_hash l" by (cases l) auto
  with ne assms show "world (exec_line l it) =
           (world it)\<lparr>env := assign_str key (join (str '' '') (v # vs)) (env (world it)),
                      console_log := console_log (world it) @
                         [str ''[setProperty] Set '' @ [0x27] @ key @ [0x27] @ str '' to ''
                          @ [0x27] @ join (str '' '') (v # vs) @ [0x27] @ str '' in env.'']\<rparr>"
    and "reported (exec_line l it) = reported it"
    by (simp_all add: exec_line_def setProperty_def Let_def)
qed

lemma unknown_line:
  assumes "l \<noteq> []" "\<not> starts_with_hash l" "split_ws l = cmd # args" "commandRegistry it cmd = None"
  shows "exec_line l it = handleError (str ''parse'') (Error (str ''Unrecognized command: '' @ cmd)) it"
  using assms by (simp add: exec_line_def)

lemma handleError_adds_one:
  "\<exists>r. reported (handleError ctx err it) = reported it @ [r]
       \<and> (config_onError it \<longrightarrow> r = Hook ctx err)"
  by (simp add: handleError_def)

lemma handleError_world: "world (handleError ctx err it) = world it"
  "commandRegistry (handleError ctx err it) = commandRegistry it"
  by (simp_all add: handleError_def)

text \<open>
  Claim C5: when line 2 of a script names an unregistered command and line 3 is a valid
  \<open>setProperty\<close>, line 2 makes exactly one report (a call of the error hook when the host
  gave one) and changes nothing else, line 3 stores its key and makes no report, and the
  lines after it are run from there: no line stops the ones after it.
\<close>

theorem parse_isolates_lines:
  assumes "map trim (split_on 0x0A script) = l1 # l2 # l3 # rest"
    and "l2 \<noteq> []" and "\<not> starts_with_hash l2"
    and "split_ws l2 = cmd # args" and "commandRegistry it cmd = None"
    and "split_ws l3 = str ''setProperty'' # key # v # vs"
    and "commandRegistry it (str ''setProperty'') = Some setProperty"
  shows "\<exists>it2 it3 r.
           it2 = handleError (str ''parse'') (Error (str ''Unrecognized command: '' @ cmd))
                   (exec_line l1 it)
         \<and> reported it2 = reported (exec_line l1 it) @ [r]
         \<and> (config_onError it \<longrightarrow> r = Hook (str ''parse'') (Error (str ''Unrecognized command: '' @ cmd)))
         \<and> env (world it3) = assign_str key (join (str '' '') (v # vs)) (env (world (exec_line l1 it)))
         \<and> (key \<noteq> str ''__proto__'' \<longrightarrow>
               map_of (env (world it3)) key = Some (Str (join (str '' '') (v # vs))))
         \<and> reported it3 = reported it2
         \<and> parse script it = exec_lines rest it3"
proof -
  let ?it1 = "exec_line l1 it"
  let ?it2 = "exec_line l2 ?it1"
  let ?it3 = "exec_line l3 ?it2"
  let ?err = "Error (str ''Unrecognized command: '' @ cmd)"
  have reg1: "commandRegistry ?it1 = commandRegistry it" "config_onError ?it1 = config_onError it"
    using exec_line_config [of l1 it] by simp_all
  have it2: "?it2 = handleError (str ''parse'') ?err ?it1"
    using assms(2-5) reg1 by (simp add: unknown_line)
  obtain r where r: "reported ?it2 = reported ?it1 @ [r]"
    "config_onError it \<longrightarrow> r = Hook (str ''parse'') ?err"
    using handleError_adds_one [of "str ''parse''" ?err ?it1] it2 reg1 by auto
  have reg2: "commandRegistry ?it2 (str ''setProperty'') = Some setProperty"
    using exec_line_config [of l2 ?it1] reg1 assms(7) by simp
  have w2: "world ?it2 = world ?it1" using it2 by (simp add: handleError_world)
  have "env (world ?it3) = assign_str key (join (str '' '') (v # vs)) (env (world ?it2))"
    using setProperty_line(1) [OF assms(6) reg2] by simp
  then have e3: "env (world ?it3) = assign_str key (join (str '' '') (v # vs)) (env (world ?it1))"
    using w2 by simp
  have r3: "reported ?it3 = reported ?it2"
    using setProperty_line(2) [OF assms(6) reg2] .
  have p: "parse script it = exec_lines rest ?it3"
    using assms(1) by (simp add: parse_def)
  have m3: "key \<noteq> str ''__proto__'' \<longrightarrow>
               map_of (env (world ?it3)) key = Some (Str (join (str '' '') (v # vs)))"
    unfolding e3 by (simp add: assign_str_def map_of_obj_set)
  from it2 r e3 m3 r3 p show ?thesis by blast
qed

theorem parse_isolates_lines_witness:
  "reported (parse (str ''# demo'' @ [0x0A] @ str ''foo 1'' @ [0x0A] @ str ''setProperty a hello world'')
               (new_interp True False))
     = [Hook (str ''parse'') (Error (str ''Unrecognized command: foo''))]
   \<and> env (world (parse (str ''# demo'' @ [0x0A] @ str ''foo 1'' @ [0x0A] @ str ''setProperty a hello world'')
               (new_interp True False)))
     = [(str ''a'', Str (str ''hello world''))]"
proof -
  let ?script = "str ''# demo'' @ [0x0A] @ str ''foo 1'' @ [0x0A] @ str ''setProperty a hello world''"
  let ?it = "new_interp True False"
  have lines: "map trim (split_on 0x0A ?script)
                 = str ''# demo'' # str ''foo 1'' # str ''setProperty a hello world'' # []"
    by code_simp
  have l2: "str ''foo 1'' \<noteq> []" "\<not> starts_with_hash (str ''foo 1'')"
    "split_ws (str ''foo 1'') = str ''foo'' # [str ''1'']"
    by code_simp+
  have reg: "commandRegistry ?it (str ''foo'') = None"
    "commandRegistry ?it (str ''setProperty'') = Some setProperty"
    "config_onError ?it"
    by (simp_all add: new_interp_def registerDefaultCommands_def)
  have l3: "split_ws (str ''setProperty a hello world'')
              = str ''setProperty'' # str ''a'' # str ''hello'' # [str ''world'']"
    by code_simp
  have l1: "exec_line (str ''# demo'') ?it = ?it"
    by (simp add: exec_line_def)
  from parse_isolates_lines [OF lines l2 reg(1) l3 reg(2)]
  obtain it2 it3 r where
    "it2 = handleError (str ''parse'') (Error (str ''Unrecognized command: '' @ str ''foo''))
             (exec_line (str ''# demo'') ?it)"
    and rep2: "reported it2 = reported (exec_line (str ''# demo'') ?it) @ [r]"
    and r: "config_onError ?it \<longrightarrow> r = Hook (str ''parse'') (Error (str ''Unrecognized command: '' @ str ''foo''))"
    and e: "env (world it3) = assign_str (str ''a'') (join (str '' '') (str ''hello'' # [str ''world'']))
              (env (world (exec_line (str ''# demo'') ?it)))"
    and "str ''a'' \<noteq> str ''__proto__'' \<longrightarrow>
           map_of (env (world it3)) (str ''a'') = Some (Str (join (str '' '') (str ''hello'' # [str ''world''])))"
    and rep3: "reported it3 = reported it2"
    and p: "parse ?script ?it = exec_lines [] it3"
    by blast
  have rep: "reported it3 = reported (exec_line (str ''# demo'') ?it) @ [r]"
    using rep2 rep3 by simp
  have r': "r = Hook (str ''parse'') (Error (str ''Unrecognized command: foo''))"
    using r reg(3) by simp
  have init: "reported ?it = []" "env (world ?it) = []"
    by (simp_all add: new_interp_def registerDefaultCommands_def)
  have a: "assign_str (str ''a'') (join (str '' '') (str ''hello'' # [str ''world''])) []
             = [(str ''a'', Str (str ''hello world''))]"
    by code_simp
  from p rep e r' l1 init a show ?thesis by simp
qed

section \<open>Failures of the engine\<close>

lemma props_hbind:
  fixes r :: "'h MJSSEngine handled"
  assumes "currentMJSSProps (final_state r) = c"
    and "\<And>s. currentMJSSProps s = c \<Longrightarrow> currentMJSSProps (final_state (f s)) = c"
  shows "currentMJSSProps (final_state (hbind r f)) = c"
  using assms by (cases r) auto

lemma dom_do_props: "currentMJSSProps (final_state (dom_do H w st)) = currentMJSSProps st"
  by (simp add: dom_do_def split: sum.splits)

lemma when_truthy_props:
  fixes st :: "'h MJSSEngine"
  assumes "\<And>v s. currentMJSSProps (final_state (f v s)) = currentMJSSProps s"
  shows "currentMJSSProps (final_state (when_truthy x f st)) = currentMJSSProps st"
  using assms by (cases x) auto

lemma apply_animation_props:
  "currentMJSSProps (final_state (apply_animation H b a st)) = currentMJSSProps st"
  by (simp add: apply_animation_def dom_do_props split: sum.splits)

lemma create_button_props:
  fixes st :: "'h MJSSEngine"
  shows "currentMJSSProps (final_state (create_button H st)) = currentMJSSProps st"
proof (cases "buttonElem st")
  case (Some b)
  then show ?thesis by (simp add: create_button_def)
next
  case None
  show ?thesis
  proof (cases "createElement H (str ''button'') (outside st)")
    case (Inl err)
    with None show ?thesis by (simp add: create_button_def)
  next
    case (Inr bh)
    obtain b h where bh: "bh = (b, h)" by (cases bh)
    have "currentMJSSProps (final_state
             (hbind (when_truthy (map_of (currentMJSSProps st) (str ''buttonID''))
                        (\<lambda>v. dom_do H (SetId b v))
                        (st\<lparr>buttonElem := Some b, outside := h\<rparr>))
                 (\<lambda>st1. dom_do H (AppendChild (containerElem st1) b) st1))) = currentMJSSProps st"
      by (rule props_hbind) (simp_all add: when_truthy_props dom_do_props)
    with None Inr bh show ?thesis by (simp add: create_button_def)
  qed
qed

lemma render_steps_props:
  fixes s1 :: "'h MJSSEngine"
  shows "currentMJSSProps (final_state
             (hbind (when_truthy x1 (\<lambda>v. dom_do H (w1 v)) s1) (\<lambda>st2.
              hbind (when_truthy x2 (\<lambda>v. dom_do H (w2 v)) st2) (\<lambda>st3.
              hbind (when_truthy x3 (\<lambda>v. dom_do H (w3 v)) st3) (\<lambda>st4.
              hbind (when_truthy x4 (\<lambda>v. dom_do H (w4 v)) st4) (\<lambda>st5.
              when_truthy x5 (apply_animation H b) st5)))))) = currentMJSSProps s1"
  by (rule props_hbind, simp add: when_truthy_props dom_do_props,
      rule props_hbind, simp add: when_truthy_props dom_do_props,
      rule props_hbind, simp add: when_truthy_props dom_do_props,
      rule props_hbind, simp add: when_truthy_props dom_do_props,
      simp add: when_truthy_props apply_animation_props)

lemma renderButton_props:
  fixes st :: "'h MJSSEngine"
  shows "currentMJSSProps (final_state (renderButton H st)) = currentMJSSProps st"
  unfolding renderButton_def
proof (rule props_hbind)
  show "currentMJSSProps (final_state (create_button H st)) = currentMJSSProps st"
    by (rule create_button_props)
next
  fix s1 :: "'h MJSSEngine" assume s1: "currentMJSSProps s1 = currentMJSSProps st"
  show "currentMJSSProps (final_state (case buttonElem s1 of None \<Rightarrow> Done s1
        | Some b \<Rightarrow>
            (let props = currentMJSSProps s1 in
             hbind (when_truthy (map_of props (str ''text''))
                      (\<lambda>v. dom_do H (SetTextContent b v)) s1) (\<lambda>st2.
             hbind (when_truthy (map_of props (str ''color''))
                      (\<lambda>v. dom_do H (SetStyle b (str ''backgroundColor'') v)) st2) (\<lambda>st3.
             hbind (when_truthy (map_of props (str ''width''))
                      (\<lambda>v. dom_do H (SetStyle b (str ''width'') v)) st3) (\<lambda>st4.
             hbind (when_truthy (map_of props (str ''height''))
                      (\<lambda>v. dom_do H (SetStyle b (str ''height'') v)) st4) (\<lambda>st5.
             when_truthy (map_of props (str ''animation'')) (apply_animation H b) st5))))))) = currentMJSSProps st"
  proof (cases "buttonElem s1")
    case None
    with s1 show ?thesis by simp
  next
    case (Some b)
    then show ?thesis
      by (simp add: Let_def render_steps_props s1)
  qed
qed

lemma persist_props: "currentMJSSProps (final_state (persist H st)) = currentMJSSProps st"
  by (simp add: persist_def split: sum.splits)

lemma handleError_engine_fields:
  "currentMJSSProps (handleError_engine ctx err st) = currentMJSSProps st"
  "errors (handleError_engine ctx err st) =
     errors st @ [if onError st then Hook ctx err else Console (str ''['' @ ctx @ str '' ERROR]'') err]"
  by (simp_all add: handleError_engine_def)

text \<open>
  Claim C4: \<open>updateMJSS\<close> never throws. When the parse of the new script throws, the
  failure is reported and the current tree is the one before the call; when the render or
  the persist step throws, the failure is reported and the current tree is the combined
  one.
\<close>

theorem updateMJSS_failure_asymmetry:
  "(parseMJSS newScript = Throws err \<longrightarrow>
      updateMJSS H newScript replace st = Returns (handleError_engine (str ''UpdateMJSS'') err st)
      \<and> currentMJSSProps (handleError_engine (str ''UpdateMJSS'') err st) = currentMJSSProps st)
   \<and> (parseMJSS newScript = Returns newProps
       \<and> merged = st\<lparr>currentMJSSProps := combine replace (currentMJSSProps st) newProps\<rparr>
       \<and> (renderButton H merged = Raised err st'
            \<or> (\<exists>st1. renderButton H merged = Done st1 \<and> persist H st1 = Raised err st')) \<longrightarrow>
      updateMJSS H newScript replace st = Returns (handleError_engine (str ''UpdateMJSS'') err st')
      \<and> currentMJSSProps (handleError_engine (str ''UpdateMJSS'') err st')
          = combine replace (currentMJSSProps st) newProps)
   \<and> (\<forall>e. updateMJSS H newScript replace st \<noteq> Throws e)
   \<and> errors (handleError_engine (str ''UpdateMJSS'') err st') =
        errors st' @ [if onError st' then Hook (str ''UpdateMJSS'') err
                      else Console (str ''[UpdateMJSS ERROR]'') err]"
proof (intro conjI impI allI)
  assume "parseMJSS newScript = Throws err"
  then show "updateMJSS H newScript replace st = Returns (handleError_engine (str ''UpdateMJSS'') err st)"
    by (simp add: updateMJSS_def catch_def)
next
  show "currentMJSSProps (handleError_engine (str ''UpdateMJSS'') err st) = currentMJSSProps st"
    by (rule handleError_engine_fields)
next
  assume h: "parseMJSS newScript = Returns newProps
       \<and> merged = st\<lparr>currentMJSSProps := combine replace (currentMJSSProps st) newProps\<rparr>
       \<and> (renderButton H merged = Raised err st'
            \<or> (\<exists>st1. renderButton H merged = Done st1 \<and> persist H st1 = Raised err st'))"
  then have r: "hbind (renderButton H merged) (persist H) = Raised err st'" by auto
  with h show "updateMJSS H newScript replace st = Returns (handleError_engine (str ''UpdateMJSS'') err st')"
    by (simp add: updateMJSS_def catch_def)
  have "currentMJSSProps (final_state (hbind (renderButton H merged) (persist H))) = currentMJSSProps merged"
    by (rule props_hbind) (simp_all add: renderButton_props persist_props)
  with r h have "currentMJSSProps st' = combine replace (currentMJSSProps st) newProps" by simp
  then show "currentMJSSProps (handleError_engine (str ''UpdateMJSS'') err st')
          = combine replace (currentMJSSProps st) newProps"
    by (simp add: handleError_engine_fields)
next
  fix e show "updateMJSS H newScript replace st \<noteq> Throws e"
    by (simp add: updateMJSS_def split: outcome.splits)
next
  show "errors (handleError_engine (str ''UpdateMJSS'') err st') =
        errors st' @ [if onError st' then Hook (str ''UpdateMJSS'') err
                      else Console (str ''[UpdateMJSS ERROR]'') err]"
    by (simp add: handleError_engine_fields)
qed

theorem updateMJSS_failure_asymmetry_witness:
  "(\<exists>st. updateMJSS (page_host False False) (str ''a = 1'' @ [0x0A] @ str ''a.b = 2'') False
            (fresh_engine app_options 0 empty_page) = Returns st
        \<and> currentMJSSProps st = []
        \<and> errors st = [Hook (str ''UpdateMJSS'') TypeError])
   \<and> (\<exists>st. updateMJSS (page_host True False) (str ''width = 200px'') False
            (fresh_engine app_options 0 empty_page) = Returns st
        \<and> currentMJSSProps st = [(str ''width'', Str (str ''200px'')), (str ''animation'', Obj [])]
        \<and> errors st = [Hook (str ''UpdateMJSS'') (HostError (str ''HierarchyRequestError''))])
   \<and> (\<exists>st. updateMJSS (page_host False True) (str ''width = 200px'') False
            (fresh_engine app_options 0 empty_page) = Returns st
        \<and> currentMJSSProps st = [(str ''width'', Str (str ''200px'')), (str ''animation'', Obj [])]
        \<and> errors st = [Hook (str ''UpdateMJSS'') (HostError (str ''QuotaExceededError''))])"
proof -
  let ?e0 = "fresh_engine app_options 0 empty_page :: page MJSSEngine"
  let ?new = "[(str ''width'', Str (str ''200px''))]"
  let ?tree = "[(str ''width'', Str (str ''200px'')), (str ''animation'', Obj [])]"
  let ?m = "?e0\<lparr>currentMJSSProps := combine False (currentMJSSProps ?e0) ?new\<rparr>"
  let ?s1 = "?e0\<lparr>currentMJSSProps := ?tree, buttonElem := Some 1,
                 outside := empty_page\<lparr>created := 1\<rparr>\<rparr>"
  let ?s2 = "?e0\<lparr>currentMJSSProps := ?tree, buttonElem := Some 1,
                 outside := empty_page\<lparr>created := 1,
                   writes := [AppendChild 0 1, SetStyle 1 (str ''width'') (Str (str ''200px''))]\<rparr>\<rparr>"
  have e0: "currentMJSSProps ?e0 = []" "errors ?e0 = []" "onError ?e0"
    by (simp_all add: fresh_engine_def app_options_def)
  have s: "errors ?s1 = []" "onError ?s1" "errors ?s2 = []" "onError ?s2"
    by (simp_all add: fresh_engine_def app_options_def)
  have c: "combine False (currentMJSSProps ?e0) ?new = ?tree"
    by code_simp
  have p1: "parseMJSS (str ''a = 1'' @ [0x0A] @ str ''a.b = 2'') = Throws TypeError"
    by code_simp
  have p2: "parseMJSS (str ''width = 200px'') = Returns ?new"
    by code_simp
  have r2: "renderButton (page_host True False) ?m = Raised (HostError (str ''HierarchyRequestError'')) ?s1"
    by code_simp
  have r3: "renderButton (page_host False True) ?m = Done ?s2"
    by code_simp
  have r4: "persist (page_host False True) ?s2 = Raised (HostError (str ''QuotaExceededError'')) ?s2"
    by code_simp
  from updateMJSS_failure_asymmetry
         [of "str ''a = 1'' @ [0x0A] @ str ''a.b = 2''" TypeError "page_host False False" False ?e0
             _ _ ?e0] p1 e0
  have 1: "\<exists>st. updateMJSS (page_host False False) (str ''a = 1'' @ [0x0A] @ str ''a.b = 2'') False ?e0
              = Returns st \<and> currentMJSSProps st = [] \<and> errors st = [Hook (str ''UpdateMJSS'') TypeError]"
    by simp
  from updateMJSS_failure_asymmetry
         [of "str ''width = 200px''" "HostError (str ''HierarchyRequestError'')"
             "page_host True False" False ?e0 ?new ?m ?s1] p2 r2 s c
  have 2: "\<exists>st. updateMJSS (page_host True False) (str ''width = 200px'') False ?e0 = Returns st
        \<and> currentMJSSProps st = ?tree
        \<and> errors st = [Hook (str ''UpdateMJSS'') (HostError (str ''HierarchyRequestError''))]"
    by simp
  from updateMJSS_failure_asymmetry
         [of "str ''width = 200px''" "HostError (str ''QuotaExceededError'')"
             "page_host False True" False ?e0 ?new ?m ?s2] p2 r3 r4 s c
  have 3: "\<exists>st. updateMJSS (page_host False True) (str ''width = 200px'') False ?e0 = Returns st
        \<and> currentMJSSProps st = ?tree
        \<and> errors st = [Hook (str ''UpdateMJSS'') (HostError (str ''QuotaExceededError''))]"
    by simp
  from 1 2 3 show ?thesis by blast
qed

lemma initialize_cases:
  "initialize H st = (case load_saved H st of
       Returns r \<Rightarrow> Returns (catch (str ''Initialization'') (hbind r (renderButton H)))
     | Throws e \<Rightarrow> Throws e | Unmodelled \<Rightarrow> Unmodelled)"
  by (simp add: initialize_def split: outcome.splits)

lemma load_saved_never_throws: "load_saved H st \<noteq> Throws e"
  by (simp add: load_saved_def Let_def split: sum.splits outcome.splits)

lemma initialize_never_throws: "initialize H st \<noteq> Throws e"
  by (simp add: initialize_cases load_saved_never_throws split: outcome.splits)

text \<open>
  Claim C9: the constructor throws exactly when the container is given as an identifier
  that the document does not resolve. With a resolved container, a failure of the storage
  read, of the parse of the saved script or of the render is reported under
  \<open>Initialization\<close>, and the constructor returns the engine.
\<close>

theorem construction_fails_only_on_missing_container:
  "((\<exists>e. new_MJSSEngine H options h = Throws e)
      \<longleftrightarrow> (\<exists>ident. container options = ById ident \<and> getElementById H ident h = None))
   \<and> ((container options = ByElement el
        \<or> (container options = ById ident \<and> getElementById H ident h = Some el))
       \<and> st0 = fresh_engine options el h \<longrightarrow>
        (getItem H (localStorageKey st0) h = Inl err \<longrightarrow>
           new_MJSSEngine H options h = Returns (handleError_engine (str ''Initialization'') err st0))
      \<and> (getItem H (localStorageKey st0) h = Inr (Some saved) \<and> saved \<noteq> []
           \<and> parseMJSS saved = Throws err \<longrightarrow>
           new_MJSSEngine H options h = Returns (handleError_engine (str ''Initialization'') err st0))
      \<and> (load_saved H st0 = Returns (Done st1) \<and> renderButton H st1 = Raised err st2 \<longrightarrow>
           new_MJSSEngine H options h = Returns (handleError_engine (str ''Initialization'') err st2))
      \<and> (load_saved H st0 \<noteq> Unmodelled \<longrightarrow> (\<exists>st. new_MJSSEngine H options h = Returns st)))"
proof (intro conjI impI)
  show "(\<exists>e. new_MJSSEngine H options h = Throws e)
      \<longleftrightarrow> (\<exists>ident. container options = ById ident \<and> getElementById H ident h = None)"
    by (auto simp: new_MJSSEngine_def initialize_never_throws split: container.splits option.splits)
next
  assume c: "(container options = ByElement el
        \<or> (container options = ById ident \<and> getElementById H ident h = Some el))
       \<and> st0 = fresh_engine options el h"
  then have new: "new_MJSSEngine H options h = initialize H st0"
    by (auto simp: new_MJSSEngine_def)
  have out: "outside st0 = h" using c by (simp add: fresh_engine_def)
  {
    assume "getItem H (localStorageKey st0) h = Inl err"
    then show "new_MJSSEngine H options h = Returns (handleError_engine (str ''Initialization'') err st0)"
      using new out by (simp add: initialize_cases load_saved_def catch_def)
  next
    assume "getItem H (localStorageKey st0) h = Inr (Some saved) \<and> saved \<noteq> []
           \<and> parseMJSS saved = Throws err"
    then show "new_MJSSEngine H options h = Returns (handleError_engine (str ''Initialization'') err st0)"
      using new out by (simp add: initialize_cases load_saved_def catch_def)
  next
    assume "load_saved H st0 = Returns (Done st1) \<and> renderButton H st1 = Raised err st2"
    then show "new_MJSSEngine H options h = Returns (handleError_engine (str ''Initialization'') err st2)"
      using new by (simp add: initialize_cases catch_def)
  next
    assume "load_saved H st0 \<noteq> Unmodelled"
    then show "\<exists>st. new_MJSSEngine H options h = Returns st"
      using new
      by (cases "load_saved H st0") (simp_all add: initialize_cases load_saved_never_throws)
  }
qed

theorem construction_fails_only_on_missing_container_witness:
  "(\<exists>e. new_MJSSEngine (page_host False False) (app_options\<lparr>container := ById (str ''nope'')\<rparr>)
            empty_page = Throws e)
   \<and> (\<exists>st. new_MJSSEngine (page_host False False) app_options
              (empty_page\<lparr>storage := [(str ''MJSS_SCRIPT'', str ''a = 1'' @ [0x0A] @ str ''a.b = 2'')]\<rparr>)
            = Returns st \<and> errors st = [Hook (str ''Initialization'') TypeError])
   \<and> (\<exists>st. new_MJSSEngine (page_host True False) app_options
              (empty_page\<lparr>storage := [(str ''MJSS_SCRIPT'', str ''width = 200px'')]\<rparr>)
            = Returns st
          \<and> errors st = [Hook (str ''Initialization'') (HostError (str ''HierarchyRequestError''))])"
proof -
  let ?bad = "str ''a = 1'' @ [0x0A] @ str ''a.b = 2''"
  let ?h2 = "empty_page\<lparr>storage := [(str ''MJSS_SCRIPT'', ?bad)]\<rparr>"
  let ?h3 = "empty_page\<lparr>storage := [(str ''MJSS_SCRIPT'', str ''width = 200px'')]\<rparr>"
  let ?new = "[(str ''width'', Str (str ''200px''))]"
  let ?a = "fresh_engine app_options 0 ?h2 :: page MJSSEngine"
  let ?b = "fresh_engine app_options 0 ?h3 :: page MJSSEngine"
  let ?b1 = "?b\<lparr>currentMJSSProps := ?new\<rparr>"
  let ?b2 = "?b\<lparr>currentMJSSProps := ?new, buttonElem := Some 1, outside := ?h3\<lparr>created := 1\<rparr>\<rparr>"
  have 1: "\<exists>e. new_MJSSEngine (page_host False False) (app_options\<lparr>container := ById (str ''nope'')\<rparr>)
            empty_page = Throws e"
  proof -
    have "container (app_options\<lparr>container := ById (str ''nope'')\<rparr>) = ById (str ''nope'')
          \<and> getElementById (page_host False False) (str ''nope'') empty_page = None"
      by (simp add: page_host_def)
    with construction_fails_only_on_missing_container
           [of "page_host False False" "app_options\<lparr>container := ById (str ''nope'')\<rparr>" empty_page]
    show ?thesis by blast
  qed
  have res: "container app_options = ById (str ''app'')"
    "getElementById (page_host False False) (str ''app'') ?h2 = Some 0"
    "getElementById (page_host True False) (str ''app'') ?h3 = Some 0"
    by (simp_all add: app_options_def page_host_def)
  have f: "errors ?a = []" "onError ?a" "errors ?b2 = []" "onError ?b2"
    by (simp_all add: fresh_engine_def app_options_def)
  have g: "getItem (page_host False False) (localStorageKey ?a) ?h2 = Inr (Some ?bad)"
    by code_simp
  have p: "?bad \<noteq> []" "parseMJSS ?bad = Throws TypeError"
    by code_simp+
  have l: "load_saved (page_host True False) ?b = Returns (Done ?b1)"
    by code_simp
  have r: "renderButton (page_host True False) ?b1 = Raised (HostError (str ''HierarchyRequestError'')) ?b2"
    by code_simp
  from construction_fails_only_on_missing_container
         [of "page_host False False" app_options ?h2 0 "str ''app''" ?a TypeError ?bad] res g p
  have "new_MJSSEngine (page_host False False) app_options ?h2
          = Returns (handleError_engine (str ''Initialization'') TypeError ?a)"
    by blast
  with f have 2: "\<exists>st. new_MJSSEngine (page_host False False) app_options ?h2 = Returns st
                   \<and> errors st = [Hook (str ''Initialization'') TypeError]"
    by (simp add: handleError_engine_fields)
  from construction_fails_only_on_missing_container
         [of "page_host True False" app_options ?h3 0 "str ''app''" ?b
             "HostError (str ''HierarchyRequestError'')" _ ?b1 ?b2] res l r
  have "new_MJSSEngine (page_host True False) app_options ?h3
          = Returns (handleError_engine (str ''Initialization'') (HostError (str ''HierarchyRequestError'')) ?b2)"
    by blast
  with f have 3: "\<exists>st. new_MJSSEngine (page_host True False) app_options ?h3 = Returns st
          \<and> errors st = [Hook (str ''Initialization'') (HostError (str ''HierarchyRequestError''))]"
    by (simp add: handleError_engine_fields)
  from 1 2 3 show ?thesis by blast
qed

section \<open>Serializing and parsing again\<close>

subsection \<open>Splitting and trimming\<close>

lemma split_on_none: "list_all (\<lambda>c. c \<noteq> sep) s \<Longrightarrow> split_on sep s = [s]"
  by (induction s) auto

lemma split_on_append:
  "list_all (\<lambda>c. c \<noteq> sep) a \<Longrightarrow> split_on sep (a @ sep # b) = a # split_on sep b"
  by (induction a) auto

lemma dropWhile_head: "s \<noteq> [] \<Longrightarrow> \<not> P (hd s) \<Longrightarrow> dropWhile P (s @ b) = s @ b"
  by (cases s) auto

lemma trim_core:
  assumes "s \<noteq> []" and "\<not> is_ws (hd s)" and "\<not> is_ws (last s)"
    and "list_all is_ws a" and "list_all is_ws b"
  shows "trim (a @ s @ b) = s"
proof -
  have "dropWhile is_ws (a @ s @ b) = dropWhile is_ws (s @ b)"
    using assms(4) by (intro dropWhile_append2) (simp add: list_all_iff)
  also have "\<dots> = s @ b"
    using assms(1,2) by (rule dropWhile_head)
  finally have 1: "dropWhile is_ws (a @ s @ b) = s @ b" .
  have "dropWhile is_ws (rev b @ rev s) = dropWhile is_ws (rev s)"
    using assms(5) by (intro dropWhile_append2) (simp add: list_all_iff)
  also have "\<dots> = rev s"
    using dropWhile_head [of "rev s" is_ws "[]"] assms(1,3) by (simp add: hd_rev)
  finally have 2: "dropWhile is_ws (rev (s @ b)) = rev s" by simp
  show ?thesis unfolding trim_def 1 2 by simp
qed

lemma trim_Nil: "trim [] = []"
  by (simp add: trim_def)

lemma split_join_lines:
  "ls \<noteq> [] \<Longrightarrow> list_all (list_all (\<lambda>c. c \<noteq> sep)) ls \<Longrightarrow> split_on sep (join [sep] ls) = ls"
proof (induction "[sep]" ls rule: join.induct)
  case 1
  then show ?case by simp
next
  case (2 x)
  then show ?case by (simp add: split_on_none)
next
  case (3 x y ys)
  then show ?case by (simp add: split_on_append)
qed

lemma ws_facts:
  "is_ws 0x20" "\<not> is_ws 0x22" "is_ws 0x0A"
  by (simp_all add: is_ws_def)

lemma cleanedValue_quoted: "cleanedValue (0x22 # v @ [0x22]) = trim v"
  by (simp add: cleanedValue_def strip_quotes_def strip_leading_quote_def strip_trailing_quote_def
        is_quote_def)

lemma assignment_line_split:
  assumes "list_all (\<lambda>c. c \<noteq> 0x3D \<and> \<not> is_ws c) path"
    and "list_all (\<lambda>c. \<not> is_quote c \<and> c \<noteq> 0x3D \<and> c \<noteq> 0x0A) v"
  shows "split_on 0x3D (assignment_line path v) = [path @ [0x20], 0x20 # 0x22 # v @ [0x22]]"
proof -
  have a: "list_all (\<lambda>c. c \<noteq> 0x3D) (path @ [0x20])"
    using assms(1) by (simp add: list_all_iff)
  have b: "list_all (\<lambda>c. c \<noteq> 0x3D) (0x20 # 0x22 # v @ [0x22])"
    using assms(2) by (simp add: list_all_iff)
  have "assignment_line path v = (path @ [0x20]) @ 0x3D # (0x20 # 0x22 # v @ [0x22])"
    by (simp add: assignment_line_def)
  then show ?thesis
    using split_on_append [OF a, of "0x20 # 0x22 # v @ [0x22]"] split_on_none [OF b]
    by simp
qed

lemma segment_ends:
  assumes "path \<noteq> []" and "list_all (\<lambda>c. c \<noteq> 0x3D \<and> \<not> is_ws c) path"
  shows "\<not> is_ws (hd path)" and "\<not> is_ws (last path)"
  using assms by (simp_all add: list_all_iff)

lemma assignment_line_parse:
  assumes "path \<noteq> []" and "list_all (\<lambda>c. c \<noteq> 0x3D \<and> \<not> is_ws c) path"
    and "\<not> starts_with_hash path" and "plain_value v"
  shows "parse_line (assignment_line path v) props =
           set_path (butlast (split_on 0x2E path)) (last (split_on 0x2E path)) v props"
proof -
  have v: "list_all (\<lambda>c. \<not> is_quote c \<and> c \<noteq> 0x3D \<and> c \<noteq> 0x0A) v" "trim v = v"
    using assms(4) by (simp_all add: plain_value_def)
  have ne: "assignment_line path v \<noteq> []"
    by (simp add: assignment_line_def)
  have hash: "\<not> starts_with_hash (assignment_line path v)"
    using assms(1,3) by (cases path) (simp_all add: assignment_line_def)
  have k: "trim (path @ [0x20]) = path"
    using trim_core [OF assms(1) segment_ends [OF assms(1,2)], of "[]" "[0x20]"]
    by (simp add: ws_facts)
  have r: "trim (0x20 # 0x22 # v @ [0x22]) = 0x22 # v @ [0x22]"
    using trim_core [of "0x22 # v @ [0x22]" "[0x20]" "[]"] by (simp add: ws_facts)
  have c: "cleanedValue (0x22 # v @ [0x22]) = v"
    using v(2) by (simp add: cleanedValue_quoted)
  show ?thesis
    unfolding parse_line_def assignment_line_split [OF assms(2) v(1)]
    using ne hash assms(1) by (simp add: k r c Let_def)
qed

lemma assignment_line_trimmed:
  assumes "path \<noteq> []" and "list_all (\<lambda>c. c \<noteq> 0x3D \<and> \<not> is_ws c) path"
  shows "trim (assignment_line path v) = assignment_line path v"
proof -
  have "hd (assignment_line path v) = hd path"
    using assms(1) by (simp add: assignment_line_def)
  moreover have "last (assignment_line path v) = 0x22"
    by (simp add: assignment_line_def)
  ultimately show ?thesis
    using trim_core [of "assignment_line path v" "[]" "[]"] segment_ends(1) [OF assms]
    by (simp add: ws_facts assignment_line_def)
qed

lemma assignment_line_one_line:
  assumes "list_all (\<lambda>c. c \<noteq> 0x3D \<and> \<not> is_ws c) path" and "plain_value v"
  shows "list_all (\<lambda>c. c \<noteq> 0x0A) (assignment_line path v)"
proof -
  have "list_all (\<lambda>c. c \<noteq> 0x0A) path"
    using assms(1) ws_facts(3) by (auto simp: list_all_iff)
  moreover have "list_all (\<lambda>c. c \<noteq> 0x0A) v"
    using assms(2) by (simp add: plain_value_def list_all_iff)
  ultimately show ?thesis by (simp add: assignment_line_def)
qed

subsection \<open>Objects in enumeration order\<close>

lemma shape_prefix: "is_object_shape (a @ b) \<Longrightarrow> is_object_shape a"
  by (simp add: is_object_shape_def sorted_wrt_append)

lemma shape_remove: "is_object_shape (a @ e # r) \<Longrightarrow> is_object_shape (a @ r)"
  by (auto simp: is_object_shape_def sorted_wrt_append)

lemma shape_absent:
  assumes "is_object_shape (ob @ (k, v) # r)"
  shows "map_of ob k = None"
  using assms by (auto simp: is_object_shape_def map_of_eq_None_iff)

lemma obj_set_new:
  assumes "is_object_shape (ob @ [(k, v)])"
  shows "obj_set k v' ob = ob @ [(k, v')]"
proof -
  have none: "map_of ob k = None"
    using assms by (rule shape_absent)
  show ?thesis
  proof (cases "is_array_index k")
    case True
    have "\<forall>e\<in>set ob. before_index k e"
      using assms True
      by (auto simp: is_object_shape_def sorted_wrt_append key_order_def before_index_def)
    then have "takeWhile (before_index k) ob = ob" and "dropWhile (before_index k) ob = []"
      by (simp_all add: takeWhile_eq_all_conv)
    with none True show ?thesis by (simp add: obj_set_def)
  next
    case False
    with none show ?thesis by (simp add: obj_set_def)
  qed
qed

lemma obj_set_last:
  assumes "map_of ob k = None"
  shows "obj_set k v (ob @ [(k, w)]) = ob @ [(k, v)]"
proof -
  have "map (\<lambda>e. if fst e = k then (k, v) else e) ob = ob"
    using assms by (intro map_idI) (auto simp: map_of_eq_None_iff)
  moreover have "map_of (ob @ [(k, w)]) k = Some w"
    using assms by (simp add: map_add_def)
  ultimately show ?thesis by (simp add: obj_set_def)
qed

lemma map_of_last: "map_of ob k = None \<Longrightarrow> map_of (ob @ [(k, w)]) k = Some w"
  by (simp add: map_add_def)

lemma assign_str_new:
  assumes "is_object_shape (ob @ [(k, v)])" and "k \<noteq> str ''__proto__''"
  shows "assign_str k s ob = ob @ [(k, Str s)]"
  using assms(2) obj_set_new [OF assms(1)] by (simp add: assign_str_def)

subsection \<open>Paths of one and of two segments\<close>

lemma segment_path:
  assumes "is_segment k"
  shows "k \<noteq> []" and "list_all (\<lambda>c. c \<noteq> 0x3D \<and> \<not> is_ws c) k"
    and "split_on 0x2E k = [k]"
proof -
  show "k \<noteq> []" using assms by (simp add: is_segment_def)
  show "list_all (\<lambda>c. c \<noteq> 0x3D \<and> \<not> is_ws c) k"
    using assms by (simp add: is_segment_def list_all_iff)
  have "list_all (\<lambda>c. c \<noteq> 0x2E) k"
    using assms by (simp add: is_segment_def list_all_iff)
  then show "split_on 0x2E k = [k]" by (rule split_on_none)
qed

lemma dotted_path:
  assumes "is_segment k" and "is_segment n"
  shows "k @ 0x2E # n \<noteq> []"
    and "list_all (\<lambda>c. c \<noteq> 0x3D \<and> \<not> is_ws c) (k @ 0x2E # n)"
    and "split_on 0x2E (k @ 0x2E # n) = [k, n]"
    and "starts_with_hash (k @ 0x2E # n) = starts_with_hash k"
proof -
  show "k @ 0x2E # n \<noteq> []" by simp
  have "\<not> is_ws 0x2E" by (simp add: is_ws_def)
  then show "list_all (\<lambda>c. c \<noteq> 0x3D \<and> \<not> is_ws c) (k @ 0x2E # n)"
    using segment_path(2) [OF assms(1)] segment_path(2) [OF assms(2)] by simp
  have "list_all (\<lambda>c. c \<noteq> 0x2E) k"
    using assms(1) by (simp add: is_segment_def list_all_iff)
  then have "split_on 0x2E (k @ 0x2E # n) = k # split_on 0x2E n"
    by (rule split_on_append)
  then show "split_on 0x2E (k @ 0x2E # n) = [k, n]"
    using segment_path(3) [OF assms(2)] by simp
  show "starts_with_hash (k @ 0x2E # n) = starts_with_hash k"
    using segment_path(1) [OF assms(1)] by (cases k) simp_all
qed

lemma leaf_line:
  assumes "is_segment k" and "\<not> starts_with_hash k" and "plain_value s"
  shows "parse_line (assignment_line k s) props = Returns (assign_str k s props)"
    and "trimmed_line (assignment_line k s)"
proof -
  show "parse_line (assignment_line k s) props = Returns (assign_str k s props)"
    using assignment_line_parse [OF segment_path(1,2) [OF assms(1)] assms(2,3), of props]
    by (simp add: segment_path(3) [OF assms(1)])
  show "trimmed_line (assignment_line k s)"
    unfolding trimmed_line_def
    using assignment_line_trimmed [OF segment_path(1,2) [OF assms(1)]]
      assignment_line_one_line [OF segment_path(2) [OF assms(1)] assms(3)]
    by simp
qed

lemma nested_line:
  assumes "is_segment k" and "is_segment n" and "\<not> starts_with_hash k" and "plain_value s"
  shows "parse_line (assignment_line (k @ str ''.'' @ n) s) props = set_path [k] n s props"
    and "trimmed_line (assignment_line (k @ str ''.'' @ n) s)"
proof -
  note d = dotted_path [OF assms(1,2)]
  have e: "k @ str ''.'' @ n = k @ 0x2E # n" by simp
  have h: "\<not> starts_with_hash (k @ 0x2E # n)"
    using d(4) assms(3) by simp
  have "parse_line (assignment_line (k @ 0x2E # n) s) props =
          set_path (butlast [k, n]) (last [k, n]) s props"
    using assignment_line_parse [OF d(1,2) h assms(4), of props] unfolding d(3) .
  then show "parse_line (assignment_line (k @ str ''.'' @ n) s) props = set_path [k] n s props"
    unfolding e by simp
  show "trimmed_line (assignment_line (k @ str ''.'' @ n) s)"
    unfolding trimmed_line_def e
    using assignment_line_trimmed [OF d(1,2)] assignment_line_one_line [OF d(2) assms(4)]
    by simp
qed

subsection \<open>Parsing the lines of a serialized tree\<close>

lemma parse_lines_append:
  "parse_lines (ls1 @ ls2) props = obind (parse_lines ls1 props) (parse_lines ls2)"
proof (induction ls1 arbitrary: props)
  case Nil
  show ?case by simp
next
  case (Cons l ls1)
  show ?case by (cases "parse_line l props") (simp_all add: Cons.IH)
qed

lemma nested_step:
  assumes "map_of acc k = None" and "is_object_shape (ob1 @ [(n, v)])"
    and "n \<noteq> str ''__proto__''"
  shows "set_path [k] n s (acc @ [(k, Obj ob1)]) = Returns (acc @ [(k, Obj (ob1 @ [(n, Str s)]))])"
  using map_of_last [OF assms(1), of "Obj ob1"] assign_str_new [OF assms(2,3), of s]
    obj_set_last [OF assms(1), of "Obj (ob1 @ [(n, Str s)])" "Obj ob1"]
  by simp

lemma nested_parse:
  assumes "list_all normalized_nested ob2" and "is_object_shape (ob1 @ ob2)"
    and "map_of acc k = None" and "is_segment k" and "\<not> starts_with_hash k"
  shows "\<exists>ls. nested_lines k ob2 = Inr ls \<and> list_all trimmed_line ls
           \<and> parse_lines ls (acc @ [(k, Obj ob1)]) = Returns (acc @ [(k, Obj (ob1 @ ob2))])"
  using assms(1,2)
proof (induction ob2 arbitrary: ob1)
  case Nil
  show ?case by simp
next
  case (Cons e rest)
  obtain n nv where e: "e = (n, nv)" by (cases e)
  from Cons.prems(1) e obtain s where nv: "nv = Str s"
    by (cases nv) simp_all
  from Cons.prems(1) e nv have n: "is_segment n" "n \<noteq> str ''__proto__''" "plain_value s"
    and rest: "list_all normalized_nested rest"
    by simp_all
  from Cons.prems(2) e have shape1: "is_object_shape (ob1 @ [(n, nv)])"
    using shape_prefix [of "ob1 @ [(n, nv)]" rest] by simp
  from Cons.prems(2) e nv have shape2: "is_object_shape ((ob1 @ [(n, Str s)]) @ rest)"
    by simp
  from Cons.IH [OF rest shape2] obtain ls where
    ls: "nested_lines k rest = Inr ls" "list_all trimmed_line ls"
      "parse_lines ls (acc @ [(k, Obj (ob1 @ [(n, Str s)]))])
         = Returns (acc @ [(k, Obj ((ob1 @ [(n, Str s)]) @ rest))])"
    by blast
  let ?l = "assignment_line (k @ str ''.'' @ n) s"
  have l: "parse_line ?l (acc @ [(k, Obj ob1)]) = Returns (acc @ [(k, Obj (ob1 @ [(n, Str s)]))])"
    using nested_line(1) [OF assms(4) n(1) assms(5) n(3)]
      nested_step [OF assms(3) shape1 n(2)] by simp
  have t: "trimmed_line ?l"
    by (rule nested_line(2) [OF assms(4) n(1) assms(5) n(3)])
  have "nested_lines k (e # rest) = Inr (?l # ls)"
    using e nv ls(1) by simp
  moreover have "list_all trimmed_line (?l # ls)"
    using t ls(2) by simp
  moreover have "parse_lines (?l # ls) (acc @ [(k, Obj ob1)])
                   = Returns (acc @ [(k, Obj (ob1 @ e # rest))])"
    using l ls(3) e nv by simp
  ultimately show ?case by blast
qed

lemma first_nested_step:
  assumes "is_object_shape (acc @ [(k, v)])" and "\<not> List.member object_prototype_keys k"
    and "n \<noteq> str ''__proto__''"
  shows "set_path [k] n s acc = Returns (acc @ [(k, Obj [(n, Str s)])])"
proof -
  have "map_of acc k = None" using assms(1) by (rule shape_absent)
  moreover have "assign_str n s [] = [(n, Str s)]"
    using assms(3) by (simp add: assign_str_def obj_set_def)
  moreover have "obj_set k (Obj [(n, Str s)]) acc = acc @ [(k, Obj [(n, Str s)])]"
    using assms(1) by (rule obj_set_new)
  ultimately show ?thesis using assms(2) by simp
qed

lemma entry_parse:
  assumes "normalized_entry (k, Obj ob)" and "is_object_shape (acc @ [(k, Obj ob)])"
  shows "\<exists>ls. nested_lines k ob = Inr ls \<and> list_all trimmed_line ls
           \<and> parse_lines ls acc = Returns (acc @ drop_empty [(k, Obj ob)])"
proof (cases ob)
  case Nil
  then show ?thesis by (simp add: drop_empty_def)
next
  case (Cons e rest)
  obtain n nv where e: "e = (n, nv)" by (cases e)
  from assms(1) have k: "is_segment k" "\<not> starts_with_hash k"
    "\<not> List.member object_prototype_keys k" "is_object_shape ob" "list_all normalized_nested ob"
    by simp_all
  from k(5) Cons e obtain s where nv: "nv = Str s"
    by (cases nv) simp_all
  from k(5) Cons e nv have n: "is_segment n" "n \<noteq> str ''__proto__''" "plain_value s"
    and rest: "list_all normalized_nested rest"
    by simp_all
  have none: "map_of acc k = None" using assms(2) by (rule shape_absent)
  have shape: "is_object_shape ([(n, Str s)] @ rest)"
    using k(4) Cons e nv by simp
  from nested_parse [OF rest shape none k(1,2)] obtain ls where
    ls: "nested_lines k rest = Inr ls" "list_all trimmed_line ls"
      "parse_lines ls (acc @ [(k, Obj [(n, Str s)])]) = Returns (acc @ [(k, Obj ([(n, Str s)] @ rest))])"
    by blast
  let ?l = "assignment_line (k @ str ''.'' @ n) s"
  have l: "parse_line ?l acc = Returns (acc @ [(k, Obj [(n, Str s)])])"
    using nested_line(1) [OF k(1) n(1) k(2) n(3)] first_nested_step [OF assms(2) k(3) n(2)]
    by simp
  have t: "trimmed_line ?l"
    by (rule nested_line(2) [OF k(1) n(1) k(2) n(3)])
  have "nested_lines k ob = Inr (?l # ls)"
    using Cons e nv ls(1) by simp
  moreover have "list_all trimmed_line (?l # ls)"
    using t ls(2) by simp
  moreover have "parse_lines (?l # ls) acc = Returns (acc @ drop_empty [(k, Obj ob)])"
    using l ls(3) Cons e nv by (simp add: drop_empty_def)
  ultimately show ?thesis by blast
qed

lemma tree_parse:
  assumes "list_all normalized_entry t" and "is_object_shape (acc @ t)"
  shows "\<exists>ls. build_lines t = Inr ls \<and> list_all trimmed_line ls
           \<and> parse_lines ls acc = Returns (acc @ drop_empty t)"
  using assms
proof (induction t arbitrary: acc)
  case Nil
  show ?case by (simp add: drop_empty_def)
next
  case (Cons e rest)
  obtain k v where e: "e = (k, v)" by (cases e)
  from Cons.prems(1) have rest: "list_all normalized_entry rest" by simp
  show ?case
  proof (cases v)
    case (Str s)
    from Cons.prems(1) e Str have k: "is_segment k" "\<not> starts_with_hash k"
      "k \<noteq> str ''__proto__''" "plain_value s"
      by simp_all
    have shape1: "is_object_shape (acc @ [(k, Str s)])"
      using Cons.prems(2) e Str shape_prefix [of "acc @ [(k, Str s)]" rest] by simp
    have shape2: "is_object_shape ((acc @ [(k, Str s)]) @ rest)"
      using Cons.prems(2) e Str by simp
    from Cons.IH [OF rest shape2] obtain ls where
      ls: "build_lines rest = Inr ls" "list_all trimmed_line ls"
        "parse_lines ls (acc @ [(k, Str s)]) = Returns ((acc @ [(k, Str s)]) @ drop_empty rest)"
      by blast
    let ?l = "assignment_line k s"
    have l: "parse_line ?l acc = Returns (acc @ [(k, Str s)])"
      using leaf_line(1) [OF k(1,2,4)] assign_str_new [OF shape1 k(3)] by simp
    have "build_lines (e # rest) = Inr (?l # ls)"
      using e Str ls(1) by simp
    moreover have "list_all trimmed_line (?l # ls)"
      using leaf_line(2) [OF k(1,2,4)] ls(2) by simp
    moreover have "parse_lines (?l # ls) acc = Returns (acc @ drop_empty (e # rest))"
      using l ls(3) e Str by (simp add: drop_empty_def)
    ultimately show ?thesis by blast
  next
    case (Obj ob)
    have entry: "normalized_entry (k, Obj ob)"
      using Cons.prems(1) e Obj by simp
    have shape1: "is_object_shape (acc @ [(k, Obj ob)])"
      using Cons.prems(2) e Obj shape_prefix [of "acc @ [(k, Obj ob)]" rest] by simp
    from entry_parse [OF entry shape1] obtain ls1 where
      ls1: "nested_lines k ob = Inr ls1" "list_all trimmed_line ls1"
        "parse_lines ls1 acc = Returns (acc @ drop_empty [(k, Obj ob)])"
      by blast
    have shape2: "is_object_shape ((acc @ drop_empty [(k, Obj ob)]) @ rest)"
    proof (cases "ob = []")
      case True
      then show ?thesis
        using Cons.prems(2) e Obj shape_remove [of acc "(k, Obj ob)" rest]
        by (simp add: drop_empty_def)
    next
      case False
      then show ?thesis
        using Cons.prems(2) e Obj by (simp add: drop_empty_def)
    qed
    from Cons.IH [OF rest shape2] obtain ls2 where
      ls2: "build_lines rest = Inr ls2" "list_all trimmed_line ls2"
        "parse_lines ls2 (acc @ drop_empty [(k, Obj ob)])
           = Returns ((acc @ drop_empty [(k, Obj ob)]) @ drop_empty rest)"
      by blast
    have "build_lines (e # rest) = Inr (ls1 @ ls2)"
      using e Obj ls1(1) ls2(1) by simp
    moreover have "list_all trimmed_line (ls1 @ ls2)"
      using ls1(2) ls2(2) by simp
    moreover have "parse_lines (ls1 @ ls2) acc = Returns (acc @ drop_empty (e # rest))"
      using ls1(3) ls2(3) e Obj by (simp add: parse_lines_append drop_empty_def)
    ultimately show ?thesis by blast
  qed
qed

lemma ebind_Inr: "ebind r Inr = r"
  by (cases r) simp_all

lemma build_lines_drop_empty: "build_lines (drop_empty t) = build_lines t"
proof (induction t rule: build_lines.induct)
  case 1
  show ?case by (simp add: drop_empty_def)
next
  case (2 key ob rest)
  then have ih: "build_lines (drop_empty rest) = build_lines rest" by simp
  show ?case
  proof (cases "ob = []")
    case True
    have "build_lines ((key, Obj []) # rest) = ebind (build_lines rest) Inr" by simp
    then have "build_lines ((key, Obj []) # rest) = build_lines rest"
      by (simp only: ebind_Inr)
    moreover have "drop_empty ((key, Obj []) # rest) = drop_empty rest"
      by (simp add: drop_empty_def)
    ultimately show ?thesis using True ih by simp
  next
    case False
    then have "drop_empty ((key, Obj ob) # rest) = (key, Obj ob) # drop_empty rest"
      by (simp add: drop_empty_def)
    then show ?thesis using ih by simp
  qed
next
  case (3 key s rest)
  then have ih: "build_lines (drop_empty rest) = build_lines rest" by simp
  have "drop_empty ((key, Str s) # rest) = (key, Str s) # drop_empty rest"
    by (simp add: drop_empty_def)
  then show ?case using ih by simp
qed

lemma map_trim_lines: "list_all trimmed_line ls \<Longrightarrow> map trim ls = ls"
  by (induction ls) (simp_all add: trimmed_line_def)

lemma script_lines:
  assumes "list_all trimmed_line ls"
  shows "parse_lines (map trim (split_on 0x0A (join [0x0A] ls))) props = parse_lines ls props"
proof (cases "ls = []")
  case True
  then show ?thesis by (simp add: trim_Nil parse_line_def)
next
  case False
  have "list_all (list_all (\<lambda>c. c \<noteq> 0x0A)) ls"
    using assms by (simp add: list_all_iff trimmed_line_def)
  with False have "split_on 0x0A (join [0x0A] ls) = ls"
    by (rule split_join_lines)
  then show ?thesis using map_trim_lines [OF assms] by simp
qed

text \<open>
  Claim C1, as stated: for every tree with single-level nesting and values without quote
  characters, serializing, parsing and serializing again gives the first text. It fails
  for a value with white space at an end, which the parser trims: the tree \<open>{k: " a"}\<close> is
  written \<open>k = " a"\<close>, read back as \<open>{k: "a"}\<close> and written \<open>k = "a"\<close>.
\<close>

theorem roundtrip_trims_values_counterexample:
  "buildMJSS [(str ''k'', Str (str '' a''))] = Inr (str ''k = '' @ [0x22] @ str '' a'' @ [0x22])
   \<and> parseMJSS (str ''k = '' @ [0x22] @ str '' a'' @ [0x22]) = Returns [(str ''k'', Str (str ''a''))]
   \<and> buildMJSS [(str ''k'', Str (str ''a''))] = Inr (str ''k = '' @ [0x22] @ str ''a'' @ [0x22])
   \<and> str ''k = '' @ [0x22] @ str ''a'' @ [0x22] \<noteq> str ''k = '' @ [0x22] @ str '' a'' @ [0x22]"
  by code_simp

text \<open>
  The other conditions of the amended claim are needed as well: a key that starts with
  \<open>#\<close> makes a comment, an empty key makes a line that is skipped, a line feed in a value
  cuts it, and a dotted key under a leaf of the same name makes the parser throw.
\<close>

lemma roundtrip_other_failures:
  "parseMJSS (str ''#k = '' @ [0x22] @ str ''x'' @ [0x22]) = Returns []"
  "parseMJSS (str '' = '' @ [0x22] @ str ''x'' @ [0x22]) = Returns []"
  "parseMJSS (str ''k = '' @ [0x22] @ str ''x'' @ [0x0A] @ str ''y'' @ [0x22])
     = Returns [(str ''k'', Str (str ''x''))]"
  "buildMJSS [(str ''a'', Str (str ''x'')), (str ''a.b'', Str (str ''y''))]
     = Inr (str ''a = '' @ [0x22] @ str ''x'' @ [0x22, 0x0A] @ str ''a.b = '' @ [0x22] @ str ''y'' @ [0x22])"
  "parseMJSS (str ''a = '' @ [0x22] @ str ''x'' @ [0x22, 0x0A] @ str ''a.b = '' @ [0x22] @ str ''y'' @ [0x22])
     = Throws TypeError"
  by code_simp+

text \<open>
  Claim C1, amended: for every tree with single-level nesting whose keys are segments of
  the grammar (not empty, without \<open>.\<close>, \<open>=\<close> or white space), whose top-level keys do not
  start with \<open>#\<close>, whose keys are not \<open>__proto__\<close>, whose nested trees do not stand under a
  name inherited from \<open>Object.prototype\<close>, and whose values have no quote character, no
  \<open>=\<close>, no line feed and no white space at either end: the tree serializes, the text parses
  to the tree without its empty nested trees, and that tree serializes to the same text.
\<close>

theorem roundtrip_on_normalized_trees:
  assumes "normalized_tree t"
  shows "\<exists>text. buildMJSS t = Inr text
           \<and> parseMJSS text = Returns (drop_empty t)
           \<and> buildMJSS (drop_empty t) = Inr text"
proof -
  from assms have "list_all normalized_entry t" and "is_object_shape ([] @ t)"
    by (simp_all add: normalized_tree_def)
  from tree_parse [OF this] obtain ls where
    ls: "build_lines t = Inr ls" "list_all trimmed_line ls"
      "parse_lines ls [] = Returns (drop_empty t)"
    by auto
  let ?text = "join [0x0A] ls"
  have "buildMJSS t = Inr ?text"
    using ls(1) by (simp add: buildMJSS_def)
  moreover have "parseMJSS ?text = Returns (drop_empty t)"
    using script_lines [OF ls(2), of "[]"] ls(3) by (simp add: parseMJSS_def)
  moreover have "buildMJSS (drop_empty t) = Inr ?text"
    using ls(1) by (simp add: buildMJSS_def build_lines_drop_empty)
  ultimately show ?thesis by blast
qed

theorem roundtrip_on_normalized_trees_witness:
  "normalized_tree
     [(str ''0'', Str (str ''zero'')), (str ''text'', Str (str ''Hi'')),
      (str ''animation'', Obj [(str ''type'', Str (str ''fade'')), (str ''duration'', Str (str ''2s''))])]
   \<and> buildMJSS
     [(str ''0'', Str (str ''zero'')), (str ''text'', Str (str ''Hi'')),
      (str ''animation'', Obj [(str ''type'', Str (str ''fade'')), (str ''duration'', Str (str ''2s''))])]
     = Inr (str ''0 = '' @ [0x22] @ str ''zero'' @ [0x22, 0x0A]
            @ str ''text = '' @ [0x22] @ str ''Hi'' @ [0x22, 0x0A]
            @ str ''animation.type = '' @ [0x22] @ str ''fade'' @ [0x22, 0x0A]
            @ str ''animation.duration = '' @ [0x22] @ str ''2s'' @ [0x22])
   \<and> parseMJSS (str ''0 = '' @ [0x22] @ str ''zero'' @ [0x22, 0x0A]
            @ str ''text = '' @ [0x22] @ str ''Hi'' @ [0x22, 0x0A]
            @ str ''animation.type = '' @ [0x22] @ str ''fade'' @ [0x22, 0x0A]
            @ str ''animation.duration = '' @ [0x22] @ str ''2s'' @ [0x22])
     = Returns
     [(str ''0'', Str (str ''zero'')), (str ''text'', Str (str ''Hi'')),
      (str ''animation'', Obj [(str ''type'', Str (str ''fade'')), (str ''duration'', Str (str ''2s''))])]"
proof -
  let ?t = "[(str ''0'', Str (str ''zero'')), (str ''text'', Str (str ''Hi'')),
      (str ''animation'', Obj [(str ''type'', Str (str ''fade'')), (str ''duration'', Str (str ''2s''))])]"
  let ?text = "str ''0 = '' @ [0x22] @ str ''zero'' @ [0x22, 0x0A]
            @ str ''text = '' @ [0x22] @ str ''Hi'' @ [0x22, 0x0A]
            @ str ''animation.type = '' @ [0x22] @ str ''fade'' @ [0x22, 0x0A]
            @ str ''animation.duration = '' @ [0x22] @ str ''2s'' @ [0x22]"
  have n: "normalized_tree ?t" by code_simp
  have b: "buildMJSS ?t = Inr ?text" by code_simp
  have d: "drop_empty ?t = ?t" by code_simp
  from roundtrip_on_normalized_trees [OF n] obtain out where
    "buildMJSS ?t = Inr out" and p: "parseMJSS out = Returns (drop_empty ?t)"
    by blast
  with b have "out = ?text" by simp
  with p d have "parseMJSS ?text = Returns ?t" by simp
  with n b show ?thesis by blast
qed

section \<open>Merging: the keys the new tree does not name\<close>

lemma copy_props_object:
  "is_object_shape (acc @ a) \<Longrightarrow> copy_props acc a = acc @ a"
proof (induction a arbitrary: acc)
  case Nil
  show ?case by (simp add: copy_props_def)
next
  case (Cons e a)
  obtain k v where e: "e = (k, v)" by (cases e)
  from Cons.prems e have "is_object_shape (acc @ [(k, v)])"
    using shape_prefix [of "acc @ [(k, v)]" a] by simp
  then have s: "obj_set k v acc = acc @ [(k, v)]" by (rule obj_set_new)
  from Cons.prems e have "is_object_shape ((acc @ [(k, v)]) @ a)" by simp
  from Cons.IH [OF this] have "copy_props (acc @ [(k, v)]) a = (acc @ [(k, v)]) @ a" .
  with s e show ?case by (simp add: copy_props_def)
qed

text \<open>
  Claim C3, as stated: a top-level key absent from the new tree has in the combined tree
  the value it has in the current tree, and is absent when absent there. It fails for the
  key \<open>animation\<close> where the current tree holds no nested tree under it: merging two
  empty trees gives a tree with an empty \<open>animation\<close>, and a string under \<open>animation\<close>
  comes out as the tree of its code units.
\<close>

theorem merge_adds_animation_counterexample:
  "map_of [] (str ''animation'') = (None :: jsval option)
   \<and> map_of (merge_props [] []) (str ''animation'') = Some (Obj [])
   \<and> map_of (merge_props [(str ''animation'', Str (str ''ab''))] []) (str ''animation'')
       = Some (Obj [(str ''0'', Str (str ''a'')), (str ''1'', Str (str ''b''))])"
  by code_simp

text \<open>
  Claim C3, amended: in merge mode a top-level key that is absent from the new tree has
  in the combined tree the value it has in the current tree, and is absent when absent
  there, with one exception: the key \<open>animation\<close> is always present in the combined tree
  and holds a tree. That tree is the current nested tree when the current tree holds one
  under \<open>animation\<close>, and the empty tree when the current tree has no \<open>animation\<close>.
  What a string under \<open>animation\<close> becomes is not stated.
\<close>

theorem merge_preserves_untouched_keys:
  assumes "distinct (map fst base)" and "distinct (map fst incoming)"
  shows "(k \<noteq> str ''animation'' \<and> map_of incoming k = None
            \<longrightarrow> map_of (merge_props base incoming) k = map_of base k)
       \<and> (map_of incoming (str ''animation'') = None
            \<and> map_of base (str ''animation'') = Some (Obj a) \<and> is_object_shape a
            \<longrightarrow> map_of (merge_props base incoming) (str ''animation'')
                  = map_of base (str ''animation''))
       \<and> (map_of incoming (str ''animation'') = None \<and> map_of base (str ''animation'') = None
            \<longrightarrow> map_of (merge_props base incoming) (str ''animation'') = Some (Obj []))
       \<and> (\<exists>m. map_of (merge_props base incoming) (str ''animation'') = Some (Obj m))"
proof (intro conjI impI)
  assume "k \<noteq> str ''animation'' \<and> map_of incoming k = None"
  then show "map_of (merge_props base incoming) k = map_of base k"
    using assms by (simp add: merge_props_def map_of_obj_set map_of_copy_all)
next
  assume h: "map_of incoming (str ''animation'') = None
            \<and> map_of base (str ''animation'') = Some (Obj a) \<and> is_object_shape a"
  then have "is_object_shape ([] @ a)" by simp
  then have "copy_props [] a = [] @ a" by (rule copy_props_object)
  then have "copy_props (copy_props [] a) [] = a" by (simp add: copy_props_def)
  moreover have "map_of (merge_props base incoming) (str ''animation'')
        = Some (Obj (copy_props (copy_props [] (spread (map_of base (str ''animation''))))
                                (spread (map_of incoming (str ''animation'')))))"
    unfolding merge_props_def map_of_obj_set by simp
  ultimately show "map_of (merge_props base incoming) (str ''animation'')
                  = map_of base (str ''animation'')"
    using h by simp
next
  assume h: "map_of incoming (str ''animation'') = None \<and> map_of base (str ''animation'') = None"
  have "map_of (merge_props base incoming) (str ''animation'')
        = Some (Obj (copy_props (copy_props [] (spread (map_of base (str ''animation''))))
                                (spread (map_of incoming (str ''animation'')))))"
    unfolding merge_props_def map_of_obj_set by simp
  with h show "map_of (merge_props base incoming) (str ''animation'') = Some (Obj [])"
    by (simp add: copy_props_def)
next
  show "\<exists>m. map_of (merge_props base incoming) (str ''animation'') = Some (Obj m)"
    unfolding merge_props_def map_of_obj_set by simp
qed

theorem merge_preserves_untouched_keys_witness:
  "map_of (merge_props [(str ''text'', Str (str ''Hi'')),
                        (str ''animation'', Obj [(str ''type'', Str (str ''fade''))])]
                       [(str ''width'', Str (str ''200px''))]) (str ''text'')
     = Some (Str (str ''Hi''))
   \<and> map_of (merge_props [(str ''text'', Str (str ''Hi'')),
                          (str ''animation'', Obj [(str ''type'', Str (str ''fade''))])]
                         [(str ''width'', Str (str ''200px''))]) (str ''animation'')
     = Some (Obj [(str ''type'', Str (str ''fade''))])
   \<and> map_of (merge_props [(str ''text'', Str (str ''Hi''))] [(str ''width'', Str (str ''200px''))])
        (str ''height'') = None
   \<and> map_of (merge_props [(str ''text'', Str (str ''Hi''))] [(str ''width'', Str (str ''200px''))])
        (str ''animation'') = Some (Obj [])"
proof -
  let ?a = "[(str ''type'', Str (str ''fade''))]"
  let ?base = "[(str ''text'', Str (str ''Hi'')), (str ''animation'', Obj ?a)]"
  let ?base2 = "[(str ''text'', Str (str ''Hi''))]"
  let ?incoming = "[(str ''width'', Str (str ''200px''))]"
  have d: "distinct (map fst ?base)" "distinct (map fst ?incoming)" "distinct (map fst ?base2)"
    by code_simp+
  have h1: "str ''text'' \<noteq> str ''animation'' \<and> map_of ?incoming (str ''text'') = None"
    by code_simp
  have h2: "map_of ?incoming (str ''animation'') = None
            \<and> map_of ?base (str ''animation'') = Some (Obj ?a) \<and> is_object_shape ?a"
    by code_simp
  have h3: "str ''height'' \<noteq> str ''animation'' \<and> map_of ?incoming (str ''height'') = None"
    by code_simp
  have h4: "map_of ?incoming (str ''animation'') = None \<and> map_of ?base2 (str ''animation'') = None"
    by code_simp
  have b: "map_of ?base (str ''text'') = Some (Str (str ''Hi''))"
    "map_of ?base (str ''animation'') = Some (Obj ?a)"
    "map_of ?base2 (str ''height'') = None"
    by code_simp+
  from merge_preserves_untouched_keys [OF d(1,2), of "str ''text''" ?a] h1 h2
  have 1: "map_of (merge_props ?base ?incoming) (str ''text'') = map_of ?base (str ''text'')"
    and 2: "map_of (merge_props ?base ?incoming) (str ''animation'') = map_of ?base (str ''animation'')"
    by blast+
  from merge_preserves_untouched_keys [OF d(3,2), of "str ''height''"] h3 h4
  have 3: "map_of (merge_props ?base2 ?incoming) (str ''height'') = map_of ?base2 (str ''height'')"
    and 4: "map_of (merge_props ?base2 ?incoming) (str ''animation'') = Some (Obj [])"
    by blast+
  from 1 2 3 4 b show ?thesis by simp
qed

end
